theory Spec2Isabelle
  imports Complex_Main "HOL-Library.List_Lexorder" "HOL-Library.Char_ord"
begin

section \<open>Numeric cells and errors\<close>

text \<open>
  A numeric cell of a pandas column is a float that may be NaN.  The model keeps the
  two cases apart: \<open>Num x\<close> is a number, \<open>NaN\<close> is the missing value.  A number is
  the real value of the float; the IEEE infinities are outside the model, so
  \<open>np.isfinite\<close> is "is a number" and \<open>isna\<close> is its negation.
\<close>

datatype cell = Num real | NaN

datatype error = AssertionError | IndexError | KeyError | ValueError

fun isfinite :: "cell \<Rightarrow> bool" where
  "isfinite (Num x) = True"
| "isfinite NaN = False"

text \<open>Comparisons are exact on the values and false with NaN; arithmetic with NaN is NaN.\<close>

fun cell_ge :: "cell \<Rightarrow> cell \<Rightarrow> bool" where
  "cell_ge (Num x) (Num y) = (x \<ge> y)"
| "cell_ge _ _ = False"

fun cell_gt :: "cell \<Rightarrow> cell \<Rightarrow> bool" where
  "cell_gt (Num x) (Num y) = (x > y)"
| "cell_gt _ _ = False"

fun cell_lt :: "cell \<Rightarrow> cell \<Rightarrow> bool" where
  "cell_lt (Num x) (Num y) = (x < y)"
| "cell_lt _ _ = False"

text \<open>
  Arithmetic on float64 rounds its exact result to the nearest number with a significand
  of 53 bits, a tie going to the even significand.  \<open>fl64\<close> is this rounding on the reals;
  it also gives the float that a decimal literal of the source or a decimal field of a
  csv file denotes.  The exponent range is not modelled: no overflow and no subnormal
  numbers, which lie far from any clinical value.
\<close>

definition round_half_even :: "real \<Rightarrow> int" where
  "round_half_even r =
     (let f = \<lfloor>r\<rfloor>; d = r - of_int f in
      if d < 1 / 2 then f
      else if 1 / 2 < d then f + 1
      else if even f then f else f + 1)"

definition fl64 :: "real \<Rightarrow> real" where
  "fl64 x =
     (if x = 0 then 0
      else
        let e = \<lfloor>log 2 \<bar>x\<bar>\<rfloor> - 52 in
        of_int (round_half_even (x / 2 powr of_int e)) * 2 powr of_int e)"

text \<open>The subtraction of two float64 cells, as numpy does it.\<close>

fun cell_sub :: "cell \<Rightarrow> cell \<Rightarrow> cell" where
  "cell_sub (Num x) (Num y) = Num (fl64 (x - y))"
| "cell_sub _ _ = NaN"

fun cell_scale :: "cell \<Rightarrow> real \<Rightarrow> cell" where
  "cell_scale (Num x) k = Num (x * k)"
| "cell_scale NaN k = NaN"

section \<open>The baseline table and the AKI test\<close>

text \<open>
  \<open>get_baseline(*, black, age, gender)\<close>: the chain of age brackets of the source, in
  its order; whatever reaches the end of the chain takes the last block.
\<close>

definition get_baseline :: "int \<Rightarrow> int \<Rightarrow> int \<Rightarrow> real" where
  "get_baseline black age gender =
     (if 20 \<le> age \<and> age \<le> 24 then
        (if black = 1 then (if gender = 1 then 1.5 else 1.2)
         else (if gender = 1 then 1.3 else 1.0))
      else if 25 \<le> age \<and> age \<le> 29 then
        (if black = 1 then (if gender = 1 then 1.5 else 1.1)
         else (if gender = 1 then 1.2 else 1.0))
      else if 30 \<le> age \<and> age \<le> 39 then
        (if black = 1 then (if gender = 1 then 1.4 else 1.1)
         else (if gender = 1 then 1.2 else 0.9))
      else if 40 \<le> age \<and> age \<le> 54 then
        (if black = 1 then (if gender = 1 then 1.3 else 1.0)
         else (if gender = 1 then 1.1 else 0.9))
      else
        (if black = 1 then (if gender = 1 then 1.2 else 0.9)
         else (if gender = 1 then 1.0 else 0.8)))"

text \<open>
  \<open>has_aki(diff=None, scr=None, black=None, age=None, gender=None)\<close>.  An argument
  that is Python's \<open>None\<close> is \<open>None\<close> here; a failed \<open>assert\<close> and the final
  \<open>raise\<close> are the error value.  The three asserts run in the order black, age,
  gender.  The literals \<open>0.3\<close> and \<open>1.5\<close> and the literal that \<open>get_baseline\<close> returns are
  floats, and the product \<open>1.5 * baseline\<close> is a float64 product.
\<close>

definition has_aki ::
  "cell option \<Rightarrow> cell option \<Rightarrow> int option \<Rightarrow> int option \<Rightarrow> int option \<Rightarrow> error + bool" where
  "has_aki diff scr black age gender =
     (case diff of
        Some d \<Rightarrow> Inr (cell_ge d (Num (fl64 0.3)))
      | None \<Rightarrow>
         (case scr of
            Some s \<Rightarrow>
              (case black of
                 None \<Rightarrow> Inl AssertionError
               | Some b \<Rightarrow>
                  (case age of
                     None \<Rightarrow> Inl AssertionError
                   | Some a \<Rightarrow>
                      (case gender of
                         None \<Rightarrow> Inl AssertionError
                       | Some g \<Rightarrow>
                          Inr (cell_ge s (Num (fl64 (fl64 1.5 * fl64 (get_baseline b a g))))))))
          | None \<Rightarrow> Inl AssertionError))"

section \<open>Tables\<close>

text \<open>
  The feature catalogue: the keys of \<open>{**LABEVENTS_FEATURES, **CHARTEVENTS_FEATURES}\<close>
  in the order of the dictionary.
\<close>

datatype feature =
  Bicarbonate | Chloride | Creatinine | Glucose | Magnesium | Potassium | Sodium
  | Bun | Hemoglobin | Platelets | Wbcs | Height | Weight

definition features :: "feature list" where
  "features = [Bicarbonate, Chloride, Creatinine, Glucose, Magnesium, Potassium, Sodium,
     Bun, Hemoglobin, Platelets, Wbcs, Height, Weight]"

text \<open>
  A row of the day table: the key columns and one cell per feature.  The demographic
  join adds four columns, the labeler one more.
\<close>

record row =
  stay_day :: string
  stay_id :: int
  subject_id :: int
  vals :: "feature \<Rightarrow> cell"

record drow = row +
  hadm_id :: int
  age :: int
  gender :: int
  black :: int

record lrow = drow +
  aki :: cell

text \<open>
  A data frame is the list of its rows, each with its index label.  \<open>pd.read_csv\<close>
  numbers the rows from 0; \<open>to_csv(index=False)\<close> forgets the labels.
\<close>

type_synonym 'r frame = "(nat \<times> 'r) list"

definition read_csv :: "'r list \<Rightarrow> 'r frame" where
  "read_csv rows = zip [0..<length rows] rows"

definition to_csv :: "'r frame \<Rightarrow> 'r list" where
  "to_csv df = map snd df"

text \<open>\<open>pd.unique\<close>: the distinct values in the order of their first occurrence.\<close>

fun unique :: "'a list \<Rightarrow> 'a list" where
  "unique [] = []"
| "unique (x # xs) = x # unique (filter (\<lambda>y. y \<noteq> x) xs)"

text \<open>\<open>df[feature]\<close> read as a column, and written back as a column.\<close>

definition column :: "feature \<Rightarrow> ('a row_scheme) frame \<Rightarrow> cell list" where
  "column f df = map (\<lambda>(l, r). vals r f) df"

definition set_column :: "feature \<Rightarrow> cell list \<Rightarrow> ('a row_scheme) frame \<Rightarrow> ('a row_scheme) frame" where
  "set_column f col df = map (\<lambda>((l, r), v). (l, r\<lparr>vals := (vals r)(f := v)\<rparr>)) (zip df col)"

section \<open>The outlier clipper\<close>

fun nums :: "cell list \<Rightarrow> real list" where
  "nums [] = []"
| "nums (Num x # cs) = x # nums cs"
| "nums (NaN # cs) = nums cs"

text \<open>
  \<open>Series.quantile(q)\<close> with the default linear interpolation: NaN cells are left
  out, the rest is sorted, and the result lies between the two neighbours of the
  position \<open>(n - 1) * q\<close>.  An empty column gives NaN.
\<close>

definition quantile :: "cell list \<Rightarrow> real \<Rightarrow> cell" where
  "quantile col q =
     (let xs = sort (nums col); n = length xs in
      if n = 0 then NaN
      else
        let h = real (n - 1) * q;
            j = nat \<lfloor>h\<rfloor>;
            g = h - real j;
            a = xs ! j;
            b = xs ! (min (j + 1) (n - 1))
        in Num (a + (b - a) * g))"

text \<open>\<open>series.loc[mask] = v\<close> on a column, and \<open>series[mask]\<close>.\<close>

definition set_where :: "bool list \<Rightarrow> 'v \<Rightarrow> 'v list \<Rightarrow> 'v list" where
  "set_where msk v col = map (\<lambda>(m, x). if m then v else x) (zip msk col)"

definition select :: "bool list \<Rightarrow> 'v list \<Rightarrow> 'v list" where
  "select msk col = map snd (filter fst (zip msk col))"

text \<open>
  The body of the loop of \<open>transform_outliers\<close> for one feature.  Both masks are
  computed before either assignment, as in the source.
\<close>

definition clip_feature :: "feature \<Rightarrow> ('a row_scheme) frame \<Rightarrow> ('a row_scheme) frame" where
  "clip_feature f df =
     (let col = column f df;
          upper_bound = quantile col 0.99;
          lower_bound = quantile col 0.01;
          upper_mask = map (\<lambda>v. cell_gt v upper_bound) col;
          lower_mask = map (\<lambda>v. cell_lt v lower_bound) col;
          upper_ids = unique (select upper_mask (map (\<lambda>(l, r). stay_id r) df));
          lower_ids = unique (select lower_mask (map (\<lambda>(l, r). stay_id r) df));
          col1 = (if length upper_ids > 0 then set_where upper_mask upper_bound col else col);
          col2 = (if length lower_ids > 0 then set_where lower_mask lower_bound col1 else col1)
      in set_column f col2 df)"

definition transform_outliers :: "('a row_scheme) list \<Rightarrow> ('a row_scheme) list" where
  "transform_outliers rows = to_csv (fold clip_feature features (read_csv rows))"

section \<open>Row selection shared by the per-stay stages\<close>

text \<open>
  \<open>df[stay_id_mask]\<close>, \<open>df[~stay_id_mask]\<close> and \<open>df.drop(labels)\<close>.  The labels given
  to \<open>drop\<close> are always read off the frame itself, so its KeyError cannot arise.
\<close>

definition stay_frame :: "int \<Rightarrow> ('a row_scheme) frame \<Rightarrow> ('a row_scheme) frame" where
  "stay_frame sid df = filter (\<lambda>(l, r). stay_id r = sid) df"

definition drop_stay :: "int \<Rightarrow> ('a row_scheme) frame \<Rightarrow> ('a row_scheme) frame" where
  "drop_stay sid df = filter (\<lambda>(l, r). stay_id r \<noteq> sid) df"

definition drop_labels :: "nat list \<Rightarrow> 'r frame \<Rightarrow> 'r frame" where
  "drop_labels ls df = filter (\<lambda>(l, r). l \<notin> set ls) df"

definition stay_ids_of :: "('a row_scheme) frame \<Rightarrow> int list" where
  "stay_ids_of df = unique (map (\<lambda>(l, r). stay_id r) df)"

text \<open>The Day-Records of one stay in a table without labels, in the order of the table.\<close>

definition stay_rows :: "int \<Rightarrow> ('a row_scheme) list \<Rightarrow> ('a row_scheme) list" where
  "stay_rows sid rows = filter (\<lambda>r. stay_id r = sid) rows"

section \<open>The stay imputer\<close>

text \<open>
  \<open>get_nan_index\<close>: the loop over \<open>enumerate(result[2:])\<close>, returning \<open>i + 2\<close> at the
  first true entry and \<open>-1\<close> when there is none.
\<close>

fun scan_from :: "bool list \<Rightarrow> nat \<Rightarrow> int" where
  "scan_from [] i = -1"
| "scan_from (x # xs) i = (if x then int i + 2 else scan_from xs (i + 1))"

definition get_nan_index :: "cell list \<Rightarrow> int" where
  "get_nan_index series = (let result = map (\<lambda>x. \<not> isfinite x) series in scan_from (drop 2 result) 0)"

text \<open>\<open>ffill\<close> and \<open>bfill\<close> on one column.\<close>

fun ffill_from :: "cell \<Rightarrow> cell list \<Rightarrow> cell list" where
  "ffill_from prev [] = []"
| "ffill_from prev (x # xs) = (if isfinite x then x # ffill_from x xs else prev # ffill_from prev xs)"

definition ffill :: "cell list \<Rightarrow> cell list" where
  "ffill xs = ffill_from NaN xs"

fun bfill :: "cell list \<Rightarrow> cell list" where
  "bfill [] = []"
| "bfill (x # xs) =
     (let r = bfill xs in
      if isfinite x then x # r else (case r of [] \<Rightarrow> NaN | y # ys \<Rightarrow> y) # r)"

text \<open>
  \<open>sub.ffill().bfill()\<close> on the rows of one stay: every feature column is filled on
  its own; the key columns hold no NaN and stay as they are.
\<close>

definition fill_frame :: "('a row_scheme) frame \<Rightarrow> ('a row_scheme) frame" where
  "fill_frame sub =
     map (\<lambda>(i, (l, r)). (l, r\<lparr>vals := (\<lambda>f. bfill (ffill (column f sub)) ! i)\<rparr>))
       (zip [0..<length sub] sub)"

text \<open>
  \<open>df.loc[stay_id_mask] = rhs\<close> with a frame on the right: pandas aligns the rows by
  label.  The right-hand side is always built from the masked rows, so every masked
  label is found.
\<close>

definition loc_assign_row :: "int \<Rightarrow> ('a row_scheme) frame \<Rightarrow> nat \<times> 'a row_scheme \<Rightarrow> nat \<times> 'a row_scheme" where
  "loc_assign_row sid rhs =
     (\<lambda>(l, r). if stay_id r = sid
               then (case map_of rhs l of Some r' \<Rightarrow> (l, r') | None \<Rightarrow> (l, r))
               else (l, r))"

definition loc_assign :: "int \<Rightarrow> ('a row_scheme) frame \<Rightarrow> ('a row_scheme) frame \<Rightarrow> ('a row_scheme) frame" where
  "loc_assign sid rhs df = map (loc_assign_row sid rhs) df"

definition fill_nas_or_drop :: "('a row_scheme) frame \<Rightarrow> int \<Rightarrow> feature list \<Rightarrow> ('a row_scheme) frame" where
  "fill_nas_or_drop df sid fs =
     (if list_ex (\<lambda>f. \<not> list_ex isfinite (column f (stay_frame sid df))) fs
      then drop_stay sid df
      else loc_assign sid (fill_frame (stay_frame sid df)) df)"

text \<open>Lines 152 to 157: the rows of the stay from position \<open>nan_index\<close> on are dropped.\<close>

definition drop_gap :: "int \<Rightarrow> int \<Rightarrow> ('a row_scheme) frame \<Rightarrow> ('a row_scheme) frame" where
  "drop_gap sid nan_index df =
     (if nan_index \<noteq> -1
      then drop_labels (drop (nat nan_index) (map fst (stay_frame sid df))) df
      else df)"

text \<open>The body of the loop of \<open>impute_holes\<close> for one stay.\<close>

definition impute_stay :: "int \<Rightarrow> ('a row_scheme) frame \<Rightarrow> ('a row_scheme) frame" where
  "impute_stay sid df =
     (let sub = stay_frame sid df in
      if length sub < 3 then drop_stay sid df
      else if \<not> list_ex isfinite (drop 2 (column Creatinine sub)) then drop_stay sid df
      else
        let nan_index = get_nan_index (column Creatinine sub) in
        if nan_index = 2 then drop_stay sid df
        else fill_nas_or_drop (drop_gap sid nan_index df) sid features)"

definition impute_holes :: "('a row_scheme) list \<Rightarrow> ('a row_scheme) list" where
  "impute_holes rows =
     (let df = read_csv rows in to_csv (fold impute_stay (stay_ids_of df) df))"

section \<open>The AKI labeler\<close>

text \<open>Python's \<open>a or b\<close> on results that may raise: \<open>b\<close> is not evaluated when \<open>a\<close> is true.\<close>

fun or_else :: "error + bool \<Rightarrow> error + bool \<Rightarrow> error + bool" where
  "or_else (Inl e) b = Inl e"
| "or_else (Inr True) b = Inr True"
| "or_else (Inr False) b = b"

text \<open>\<open>Series.apply\<close> with a function that may raise, and a loop whose body may raise.\<close>

fun apply_err :: "('a \<Rightarrow> error + 'b) \<Rightarrow> 'a list \<Rightarrow> error + 'b list" where
  "apply_err f [] = Inr []"
| "apply_err f (x # xs) =
     (case f x of
        Inl e \<Rightarrow> Inl e
      | Inr y \<Rightarrow> (case apply_err f xs of Inl e \<Rightarrow> Inl e | Inr ys \<Rightarrow> Inr (y # ys)))"

fun fold_err :: "('a \<Rightarrow> 's \<Rightarrow> error + 's) \<Rightarrow> 'a list \<Rightarrow> 's \<Rightarrow> error + 's" where
  "fold_err f [] s = Inr s"
| "fold_err f (x # xs) s = (case f x s of Inl e \<Rightarrow> Inl e | Inr s' \<Rightarrow> fold_err f xs s')"

text \<open>
  \<open>df.loc[stay_id_mask, 'aki'] = aki_labels\<close> with a list on the right: the masked
  rows take the values in order.  The caller checks the lengths.
\<close>

fun assign_aki :: "int \<Rightarrow> int list \<Rightarrow> lrow frame \<Rightarrow> lrow frame" where
  "assign_aki sid vs [] = []"
| "assign_aki sid vs ((l, r) # df) =
     (if stay_id r = sid
      then (case vs of
              [] \<Rightarrow> (l, r) # assign_aki sid [] df
            | v # vs' \<Rightarrow> (l, r\<lparr>aki := Num (of_int v)\<rparr>) # assign_aki sid vs' df)
      else (l, r) # assign_aki sid vs df)"

text \<open>
  The body of the loop of \<open>add_aki_labels\<close> for one stay.  \<open>values[0]\<close> on a stay
  without rows and \<open>diffs[0]\<close> on a stay of one row raise IndexError.
\<close>

definition add_aki_stay :: "int \<Rightarrow> lrow frame \<Rightarrow> error + lrow frame" where
  "add_aki_stay sid df =
     (case stay_frame sid df of
        [] \<Rightarrow> Inl IndexError
      | (l0, r0) # rest \<Rightarrow>
         (let bl = black r0; ag = age r0; ge = gender r0;
              scr = column Creatinine (stay_frame sid df);
              diffs = map (\<lambda>(x, y). cell_sub x y) (zip (tl scr) (butlast scr))
          in
          if ag < 20 then Inr (drop_stay sid df)
          else
            (case diffs of
               [] \<Rightarrow> Inl IndexError
             | d0 # ds \<Rightarrow>
                (case or_else (has_aki (Some d0) None None None None)
                       (or_else (has_aki None (Some (scr ! 0)) (Some bl) (Some ag) (Some ge))
                                (has_aki None (Some (scr ! 1)) (Some bl) (Some ag) (Some ge))) of
                   Inl e \<Rightarrow> Inl e
                 | Inr True \<Rightarrow> Inr (drop_stay sid df)
                 | Inr False \<Rightarrow>
                    (case apply_err (\<lambda>x. has_aki (Some x) None None None None) ds of
                       Inl e \<Rightarrow> Inl e
                     | Inr aki1 \<Rightarrow>
                        (case apply_err (\<lambda>x. has_aki None (Some x) (Some bl) (Some ag) (Some ge))
                                (drop 2 scr) of
                           Inl e \<Rightarrow> Inl e
                         | Inr aki2 \<Rightarrow>
                            (let akis = map (\<lambda>(a, b). if a \<or> b then 1 else 0) (zip aki1 aki2);
                                 last_day_index = fst (last (stay_frame sid df));
                                 df1 = drop_labels [last_day_index] df;
                                 aki_labels = 0 # akis
                             in
                             if length (stay_frame sid df1) \<noteq> length aki_labels
                             then Inl ValueError
                             else
                               (let df2 = assign_aki sid aki_labels df1;
                                    to_truncate_indices = drop 8 (map fst (stay_frame sid df2))
                                in
                                if length to_truncate_indices > 0
                                then Inr (drop_labels to_truncate_indices df2)
                                else Inr df2))))))))"

text \<open>
  The \<open>aki\<close> column does not exist before the first assignment, which creates it with
  NaN in every other row.
\<close>

definition with_aki :: "drow \<Rightarrow> lrow" where
  "with_aki r = \<lparr>stay_day = stay_day r, stay_id = stay_id r, subject_id = subject_id r,
       vals = vals r, hadm_id = hadm_id r, age = age r, gender = gender r, black = black r,
       aki = NaN\<rparr>"

text \<open>
  The labeler computes with the cells, so its reading of the file is modelled down to
  the floats: \<open>pd.read_csv\<close> turns every decimal field of a feature column into a float,
  taken here to be the nearest one.  The other columns hold integers and text.
\<close>

fun parse_cell :: "cell \<Rightarrow> cell" where
  "parse_cell (Num x) = Num (fl64 x)"
| "parse_cell NaN = NaN"

definition parse_floats :: "drow \<Rightarrow> drow" where
  "parse_floats r = r\<lparr>vals := (\<lambda>f. parse_cell (vals r f))\<rparr>"

definition add_aki_labels :: "drow list \<Rightarrow> error + lrow list" where
  "add_aki_labels rows =
     (let df = read_csv (map with_aki (map parse_floats rows)) in
      case fold_err add_aki_stay (stay_ids_of df) df of
        Inl e \<Rightarrow> Inl e
      | Inr df' \<Rightarrow> Inr (to_csv df'))"

section \<open>The feature aggregator\<close>

text \<open>One raw event: a row of the events file.\<close>

record event =
  e_stay_id :: int
  e_subject_id :: int
  itemid :: int
  charttime :: string
  valuenum :: cell

text \<open>\<open>LABEVENTS_FEATURES\<close> and \<open>CHARTEVENTS_FEATURES\<close>, merged.\<close>

definition catalog :: "(feature \<times> int list) list" where
  "catalog =
     [(Bicarbonate, [50882]), (Chloride, [50902]), (Creatinine, [50912]), (Glucose, [50931]),
      (Magnesium, [50960]), (Potassium, [50822, 50971]), (Sodium, [50824, 50983]),
      (Bun, [51006]), (Hemoglobin, [51222]), (Platelets, [51265]), (Wbcs, [51300, 51301]),
      (Height, [226707, 226730, 1394]), (Weight, [763, 224639])]"

text \<open>
  \<open>features_reversed\<close>: in a dictionary comprehension a later pair overwrites an
  earlier one with the same key, so the pairs are looked up from the end.
\<close>

definition features_reversed :: "int \<Rightarrow> feature option" where
  "features_reversed =
     map_of (rev (concat (map (\<lambda>(k, v1). map (\<lambda>v2. (v2, k)) v1) catalog)))"

definition feature_of :: "event \<Rightarrow> error + feature" where
  "feature_of e = (case features_reversed (itemid e) of None \<Rightarrow> Inl KeyError | Some f \<Rightarrow> Inr f)"

text \<open>\<open>str\<close> of an integer, and \<open>int\<close> of a string of that form.\<close>

definition digit_char :: "nat \<Rightarrow> char" where
  "digit_char d = ''0123456789'' ! d"

function str_nat :: "nat \<Rightarrow> string" where
  "str_nat n = (if n < 10 then [digit_char n] else str_nat (n div 10) @ [digit_char (n mod 10)])"
  by pat_completeness auto
termination
  by (relation "measure id") auto

declare str_nat.simps [simp del]

definition str_int :: "int \<Rightarrow> string" where
  "str_int i = (if i < 0 then CHR ''-'' # str_nat (nat (- i)) else str_nat (nat i))"

definition digit_of :: "char \<Rightarrow> nat option" where
  "digit_of c = map_of (zip ''0123456789'' [0..<10]) c"

fun parse_nat :: "string \<Rightarrow> nat \<Rightarrow> nat option" where
  "parse_nat [] acc = Some acc"
| "parse_nat (c # cs) acc =
     (case digit_of c of None \<Rightarrow> None | Some d \<Rightarrow> parse_nat cs (10 * acc + d))"

definition parse_int :: "string \<Rightarrow> error + int" where
  "parse_int s =
     (case s of
        [] \<Rightarrow> Inl ValueError
      | c # cs \<Rightarrow>
         if c = CHR ''-''
         then (case cs of
                 [] \<Rightarrow> Inl ValueError
               | _ # _ \<Rightarrow> (case parse_nat cs 0 of None \<Rightarrow> Inl ValueError | Some n \<Rightarrow> Inr (- int n)))
         else (case parse_nat s 0 of None \<Rightarrow> Inl ValueError | Some n \<Rightarrow> Inr (int n)))"

text \<open>
  The day of an event is its timestamp up to the first blank; the key of its group is
  the stay id, an underscore and the day.
\<close>

definition chartday :: "event \<Rightarrow> string" where
  "chartday e = takeWhile (\<lambda>c. c \<noteq> CHR '' '') (charttime e)"

definition stay_day_of :: "event \<Rightarrow> string" where
  "stay_day_of e = str_int (e_stay_id e) @ ''_'' @ chartday e"

text \<open>Lines 76 to 78: the values of the two inch-denominated items are scaled.\<close>

definition convert_height :: "event \<Rightarrow> event" where
  "convert_height e =
     (if itemid e = 226707 \<or> itemid e = 1394
      then e\<lparr>valuenum := cell_scale (valuenum e) 2.54\<rparr>
      else e)"

text \<open>\<open>np.nanmean\<close>: the mean of the cells that are numbers, NaN when there is none.\<close>

definition nanmean :: "cell list \<Rightarrow> cell" where
  "nanmean vs = (let xs = nums vs in if xs = [] then NaN else Num (sum_list xs / real (length xs)))"

text \<open>
  The pivot table: one row per key, sorted, and one column per feature that occurs
  in the events (the order of the columns is not modelled).  A cell is the
  \<open>nanmean\<close> of its group; a cell without a group is NaN.  In the rows of the result
  a feature without a column reads NaN.
\<close>

definition pivot_cell :: "(string \<times> feature \<times> cell) list \<Rightarrow> string \<Rightarrow> feature \<Rightarrow> cell" where
  "pivot_cell tagged k f = nanmean (map (\<lambda>(d, g, v). v) (filter (\<lambda>(d, g, v). d = k \<and> g = f) tagged))"

definition lookup_err :: "('k \<Rightarrow> 'v option) \<Rightarrow> 'k \<Rightarrow> error + 'v" where
  "lookup_err m k = (case m k of None \<Rightarrow> Inl KeyError | Some v \<Rightarrow> Inr v)"

definition partition_row ::
  "(string \<times> feature \<times> cell) list \<Rightarrow> (string \<Rightarrow> int option) \<Rightarrow> string \<Rightarrow> error + row" where
  "partition_row tagged icu_subject_mapping k =
     (case parse_int (takeWhile (\<lambda>c. c \<noteq> CHR ''_'') k) of
        Inl e \<Rightarrow> Inl e
      | Inr sid \<Rightarrow>
         (case lookup_err icu_subject_mapping k of
            Inl e \<Rightarrow> Inl e
          | Inr subj \<Rightarrow>
             Inr \<lparr>stay_day = k, stay_id = sid, subject_id = subj,
                  vals = (\<lambda>f. pivot_cell tagged k f)\<rparr>))"

definition partition_rows :: "event list \<Rightarrow> error + (feature list \<times> row list)" where
  "partition_rows evs =
     (case apply_err feature_of evs of
        Inl e \<Rightarrow> Inl e
      | Inr fs \<Rightarrow>
         (let days = map stay_day_of evs;
              icu_subject_mapping = map_of (rev (zip days (map e_subject_id evs)));
              converted = map convert_height evs;
              tagged = zip days (zip fs (map valuenum converted));
              cols = filter (\<lambda>f. f \<in> set fs) features
          in
          case apply_err (partition_row tagged icu_subject_mapping) (sort (remdups days)) of
            Inl e \<Rightarrow> Inl e
          | Inr rows \<Rightarrow> Inr (cols, rows)))"

section \<open>The labeler on one stay, in closed form\<close>

text \<open>
  Two notions used in the proofs about the labeler, both read off \<open>add_aki_stay\<close>.
  \<open>aki_flags\<close> is the list \<open>aki\<close> of the source, written on the creatinine column with the
  two tests of \<open>has_aki\<close> in place of the calls.  \<open>stay_outcome\<close> is what the loop body
  does to the rows of the stay it is called for; the theorems below show that
  \<open>add_aki_stay\<close> leaves exactly these rows of the stay and no other change.
\<close>

definition aki_flags :: "cell list \<Rightarrow> real \<Rightarrow> int list" where
  "aki_flags scr b =
     map (\<lambda>(a, b). if a \<or> b then 1 else 0)
       (zip (map (\<lambda>x. cell_ge x (Num (fl64 0.3)))
               (tl (map (\<lambda>(x, y). cell_sub x y) (zip (tl scr) (butlast scr)))))
            (map (\<lambda>x. cell_ge x (Num b)) (drop 2 scr)))"

definition stay_outcome :: "lrow frame \<Rightarrow> error + lrow frame" where
  "stay_outcome sub =
     (case sub of
        [] \<Rightarrow> Inl IndexError
      | (l0, r0) # rest \<Rightarrow>
         if age r0 < 20 then Inr []
         else
           (case rest of
              [] \<Rightarrow> Inl IndexError
            | (l1, r1) # rest' \<Rightarrow>
               if cell_ge (cell_sub (vals r1 Creatinine) (vals r0 Creatinine)) (Num (fl64 0.3)) \<or>
                  cell_ge (vals r0 Creatinine) (Num (fl64 (fl64 1.5 * fl64 (get_baseline (black r0) (age r0) (gender r0))))) \<or>
                  cell_ge (vals r1 Creatinine) (Num (fl64 (fl64 1.5 * fl64 (get_baseline (black r0) (age r0) (gender r0)))))
               then Inr []
               else Inr (take 8
                      (map (\<lambda>((l, r), v). (l, r\<lparr>aki := Num (of_int v)\<rparr>))
                         (zip (butlast sub)
                            (0 # aki_flags (column Creatinine sub)
                                   (fl64 (fl64 1.5 * fl64 (get_baseline (black r0) (age r0) (gender r0))))))))))"

section \<open>Sample tables\<close>

text \<open>
  Small tables on which the theorems below are instantiated.  In a \<open>day_row\<close> every
  feature other than creatinine and glucose is 1.
\<close>

definition day_row :: "int \<Rightarrow> string \<Rightarrow> cell \<Rightarrow> cell \<Rightarrow> row" where
  "day_row sid d c g =
     \<lparr>stay_day = d, stay_id = sid, subject_id = 10,
      vals = (\<lambda>f. if f = Creatinine then c else if f = Glucose then g else Num 1)\<rparr>"

definition glucose_stay :: "row list" where
  "glucose_stay =
     [day_row 1 ''1_2020-01-01'' (Num 1) NaN,
      day_row 1 ''1_2020-01-02'' (Num 1) (Num 5),
      day_row 1 ''1_2020-01-03'' (Num 1) NaN,
      day_row 1 ''1_2020-01-04'' (Num 1) (Num 7),
      day_row 1 ''1_2020-01-05'' (Num 1) NaN]"

definition late_creatinine_table :: "row list" where
  "late_creatinine_table =
     [day_row 2 ''2_2020-03-01'' NaN (Num 5),
      day_row 2 ''2_2020-03-02'' NaN (Num 5),
      day_row 3 ''3_2020-03-02'' (Num 1) (Num 5),
      day_row 2 ''2_2020-03-03'' (Num 0.9) (Num 5)]"

definition gap_table :: "row list" where
  "gap_table =
     [day_row 4 ''4_2020-05-01'' (Num 1) (Num 5),
      day_row 4 ''4_2020-05-02'' (Num 1) (Num 5),
      day_row 4 ''4_2020-05-03'' (Num 1) (Num 5),
      day_row 4 ''4_2020-05-04'' (Num 1) (Num 5),
      day_row 4 ''4_2020-05-05'' NaN (Num 5),
      day_row 4 ''4_2020-05-06'' (Num 1) (Num 5),
      day_row 5 ''5_2020-05-01'' (Num 1) (Num 5),
      day_row 5 ''5_2020-05-02'' (Num 1) (Num 5),
      day_row 5 ''5_2020-05-03'' NaN (Num 5),
      day_row 5 ''5_2020-05-04'' (Num 1) (Num 5)]"

text \<open>
  Tables for the labeler.  Every patient of a \<open>lab_row\<close> is 45, male and not black, so the
  baseline is 1.1 and the absolute threshold the float product \<open>1.5 * 1.1\<close>, which is
  \<open>1.6500000000000001\<close>.  The creatinine cells are written as in the file, in decimal.

  In \<open>aki_table\<close>, stay 7 rises from 0.4 to 0.7 (a float difference of
  \<open>0.29999999999999993\<close>) and then from 0.7 to 1.0 (\<open>0.30000000000000004\<close>); stay 11 reaches
  1.65, just below the threshold, and then 1.66.
\<close>

definition lab_row :: "int \<Rightarrow> string \<Rightarrow> cell \<Rightarrow> drow" where
  "lab_row sid d c =
     \<lparr>stay_day = d, stay_id = sid, subject_id = 10,
      vals = (\<lambda>f. if f = Creatinine then c else Num 1),
      hadm_id = 20, age = 45, gender = 1, black = 0\<rparr>"

definition aki_table :: "drow list" where
  "aki_table =
     [lab_row 7 ''7_2020-07-01'' (Num 0.4),
      lab_row 7 ''7_2020-07-02'' (Num 0.4),
      lab_row 7 ''7_2020-07-03'' (Num 0.7),
      lab_row 7 ''7_2020-07-04'' (Num 1.0),
      lab_row 7 ''7_2020-07-05'' (Num 1.0),
      lab_row 11 ''11_2020-07-01'' (Num 1.4),
      lab_row 11 ''11_2020-07-02'' (Num 1.4),
      lab_row 11 ''11_2020-07-03'' (Num 1.65),
      lab_row 11 ''11_2020-07-04'' (Num 1.66)]"

definition labelled :: "drow \<Rightarrow> real \<Rightarrow> lrow" where
  "labelled r v = (with_aki (parse_floats r))\<lparr>aki := Num v\<rparr>"

definition aki_table_labelled :: "lrow list" where
  "aki_table_labelled =
     [labelled (aki_table ! 0) 0,
      labelled (aki_table ! 1) 0,
      labelled (aki_table ! 2) 1,
      labelled (aki_table ! 3) 0,
      labelled (aki_table ! 5) 0,
      labelled (aki_table ! 6) 0,
      labelled (aki_table ! 7) 1]"

text \<open>
  In \<open>removal_table\<close>, stay 8 rises by 0.4 from its first to its second day; stay 9 is a
  single row of a patient of 19; stay 12 rises from 0.4 to 0.7 from its first to its second
  day; stay 13 is at 1.65 and stay 14 at 1.66 on every day.
\<close>

definition removal_table :: "drow list" where
  "removal_table =
     [lab_row 8 ''8_2020-07-01'' (Num 0.4),
      lab_row 8 ''8_2020-07-02'' (Num 0.8),
      lab_row 8 ''8_2020-07-03'' (Num 0.8),
      (lab_row 9 ''9_2020-07-01'' (Num 1.0))\<lparr>age := 19\<rparr>,
      lab_row 12 ''12_2020-07-01'' (Num 0.4),
      lab_row 12 ''12_2020-07-02'' (Num 0.7),
      lab_row 12 ''12_2020-07-03'' (Num 0.7),
      lab_row 13 ''13_2020-07-01'' (Num 1.65),
      lab_row 13 ''13_2020-07-02'' (Num 1.65),
      lab_row 13 ''13_2020-07-03'' (Num 1.65),
      lab_row 14 ''14_2020-07-01'' (Num 1.66),
      lab_row 14 ''14_2020-07-02'' (Num 1.66),
      lab_row 14 ''14_2020-07-03'' (Num 1.66)]"

definition removal_table_labelled :: "lrow list" where
  "removal_table_labelled =
     [labelled (removal_table ! 4) 0,
      labelled (removal_table ! 5) 0,
      labelled (removal_table ! 7) 0,
      labelled (removal_table ! 8) 0]"

text \<open>A table of two rows for the clipper: every feature is 0 in the first and 100 in the second.\<close>

definition two_row_table :: "row list" where
  "two_row_table =
     [\<lparr>stay_day = ''9_2020-09-01'', stay_id = 9, subject_id = 10, vals = (\<lambda>f. Num 0)\<rparr>,
      \<lparr>stay_day = ''9_2020-09-02'', stay_id = 9, subject_id = 10, vals = (\<lambda>f. Num 100)\<rparr>]"


section \<open>Properties of the rounding\<close>

text \<open>
  The exponent of a number is fixed by the powers of two around it, which turns \<open>fl64\<close>
  at a given number into the rounding of a quotient of integers.
\<close>

lemma floor_log2:
  assumes "x \<noteq> 0" "2 powr of_int k \<le> \<bar>x\<bar>" "\<bar>x\<bar> < 2 powr of_int (k + 1)"
  shows "\<lfloor>log 2 \<bar>x\<bar>\<rfloor> = k"
proof -
  have pos: "0 < \<bar>x\<bar>" using assms(1) by simp
  have "of_int k \<le> log 2 \<bar>x\<bar>" using assms(2) pos by (simp add: le_log_iff)
  moreover have "log 2 \<bar>x\<bar> < of_int k + 1"
    using assms(3) pos by (simp add: log_less_iff)
  ultimately show ?thesis by (simp add: floor_eq_iff)
qed

lemma fl64_small:
  assumes "1 \<le> \<bar>x\<bar> * 2 ^ n" "\<bar>x\<bar> * 2 ^ n < 2"
  shows "fl64 x = of_int (round_half_even (x * 2 ^ (n + 52))) / 2 ^ (n + 52)"
proof -
  have "0 < \<bar>x\<bar> * 2 ^ n" using assms(1) by linarith
  then have x0: "x \<noteq> 0" by auto
  have p: "2 powr of_int (- int n) = 1 / (2::real) ^ n"
    by (simp add: powr_minus_divide powr_realpow)
  have p1: "2 powr of_int (- int n + 1) = 2 / (2::real) ^ n"
    by (simp add: powr_diff powr_realpow)
  have a: "2 powr of_int (- int n) \<le> \<bar>x\<bar>"
    unfolding p using assms(1) by (simp add: field_simps)
  have b: "\<bar>x\<bar> < 2 powr of_int (- int n + 1)"
    unfolding p1 using assms(2) by (simp add: field_simps)
  have e: "\<lfloor>log 2 \<bar>x\<bar>\<rfloor> = - int n" by (rule floor_log2 [OF x0 a b])
  have q: "2 powr of_int (- int n - 52) = 1 / (2::real) ^ (n + 52)"
  proof -
    have "- int n - 52 = - int (n + 52)" by simp
    then show ?thesis by (simp only: powr_minus_divide powr_realpow of_int_minus of_int_of_nat_eq zero_less_numeral)
  qed
  show ?thesis
    unfolding fl64_def Let_def e q using x0 by simp
qed

lemma fl64_big:
  assumes "2 ^ n \<le> \<bar>x\<bar>" "\<bar>x\<bar> < 2 ^ (n + 1)" "n \<le> 52"
  shows "fl64 x = of_int (round_half_even (x * 2 ^ (52 - n))) / 2 ^ (52 - n)"
proof -
  have "0 < (2::real) ^ n" by simp
  then have "0 < \<bar>x\<bar>" using assms(1) by linarith
  then have x0: "x \<noteq> 0" by auto
  have a: "2 powr of_int (int n) \<le> \<bar>x\<bar>" using assms(1) by (simp add: powr_realpow)
  have "int n + 1 = int (n + 1)" by simp
  then have b: "\<bar>x\<bar> < 2 powr of_int (int n + 1)"
    using assms(2) by (simp only: powr_realpow of_int_of_nat_eq zero_less_numeral)
  have e: "\<lfloor>log 2 \<bar>x\<bar>\<rfloor> = int n" by (rule floor_log2 [OF x0 a b])
  have q: "2 powr of_int (int n - 52) = 1 / (2::real) ^ (52 - n)"
  proof -
    have "int n - 52 = - int (52 - n)" using assms(3) by simp
    then show ?thesis by (simp only: powr_minus_divide powr_realpow of_int_minus of_int_of_nat_eq zero_less_numeral)
  qed
  show ?thesis
    unfolding fl64_def Let_def e q using x0 by simp
qed

lemma fl64_zero: "fl64 0 = 0"
  by (simp add: fl64_def)

text \<open>Rules that evaluate \<open>fl64\<close> at a given number between \<open>1 / 128\<close> and 4.\<close>

lemmas fl64_eval =
  fl64_zero round_half_even_def
  fl64_big [where n = 0] fl64_big [where n = 1]
  fl64_small [where n = 1] fl64_small [where n = 2] fl64_small [where n = 3]
  fl64_small [where n = 4] fl64_small [where n = 5] fl64_small [where n = 6]
  fl64_small [where n = 7]

text \<open>The floats of the literals and of the sample values used below.\<close>

lemma fl64_0_3: "fl64 0.3 = 5404319552844595 / 2 ^ 54"
  by (subst fl64_small [where n = 2]) (simp_all add: round_half_even_def)

lemma fl64_0_4: "fl64 0.4 = 7205759403792794 / 2 ^ 54"
  by (subst fl64_small [where n = 2]) (simp_all add: round_half_even_def)

lemma fl64_0_7: "fl64 0.7 = 6305039478318694 / 2 ^ 53"
  by (subst fl64_small [where n = 1]) (simp_all add: round_half_even_def)

lemma fl64_0_8: "fl64 0.8 = 7205759403792794 / 2 ^ 53"
  by (subst fl64_small [where n = 1]) (simp_all add: round_half_even_def)

lemma fl64_1_0: "fl64 1.0 = 1"
  by (subst fl64_big [where n = 0]) (simp_all add: round_half_even_def)

lemma fl64_1_1: "fl64 1.1 = 4953959590107546 / 2 ^ 52"
  by (subst fl64_big [where n = 0]) (simp_all add: round_half_even_def)

lemma fl64_1_2: "fl64 1.2 = 5404319552844595 / 2 ^ 52"
  by (subst fl64_big [where n = 0]) (simp_all add: round_half_even_def)

lemma fl64_1_5: "fl64 1.5 = 3 / 2"
  by (subst fl64_big [where n = 0]) (simp_all add: round_half_even_def)

lemma fl64_1_65: "fl64 1.65 = 7430939385161318 / 2 ^ 52"
  by (subst fl64_big [where n = 0]) (simp_all add: round_half_even_def)

text \<open>
  The difference \<open>0.7 - 0.4\<close> of floats is \<open>0.29999999999999993\<close>, below the float of \<open>0.3\<close>;
  the products \<open>1.5 * 1.1\<close> and \<open>1.5 * 0.8\<close> are \<open>1.6500000000000001\<close> and
  \<open>1.2000000000000002\<close>, above the floats of \<open>1.65\<close> and \<open>1.2\<close>.
\<close>

lemma fl64_0_7_minus_0_4: "fl64 (fl64 0.7 - fl64 0.4) = 5404319552844594 / 2 ^ 54"
  unfolding fl64_0_7 fl64_0_4
  by (subst fl64_small [where n = 2]) (simp_all add: round_half_even_def)

lemma fl64_threshold_1_1: "fl64 (fl64 1.5 * fl64 1.1) = 7430939385161319 / 2 ^ 52"
  unfolding fl64_1_5 fl64_1_1
  by (subst fl64_big [where n = 0]) (simp_all add: round_half_even_def)

lemma fl64_threshold_0_8: "fl64 (fl64 1.5 * fl64 0.8) = 5404319552844596 / 2 ^ 52"
  unfolding fl64_1_5 fl64_0_8
  by (subst fl64_big [where n = 0]) (simp_all add: round_half_even_def)

section \<open>Properties of the baseline table and the AKI test\<close>

text \<open>
  Claim C7.  For every age of at least 20 the baseline is the cell of the fixed table
  for the age bracket (20 to 24, 25 to 29, 30 to 39, 40 to 54, 55 and more), the race
  flag and the sex: all twenty cells, and the two sample values
  baseline(black=1, age=30, gender=1) = 1.4 and baseline(black=0, age=60, gender=0) = 0.8.
\<close>

theorem get_baseline_table:
  "(20 \<le> a \<and> a \<le> 24 \<longrightarrow>
      get_baseline 1 a 1 = 1.5 \<and> get_baseline 1 a 0 = 1.2 \<and>
      get_baseline 0 a 1 = 1.3 \<and> get_baseline 0 a 0 = 1.0) \<and>
   (25 \<le> a \<and> a \<le> 29 \<longrightarrow>
      get_baseline 1 a 1 = 1.5 \<and> get_baseline 1 a 0 = 1.1 \<and>
      get_baseline 0 a 1 = 1.2 \<and> get_baseline 0 a 0 = 1.0) \<and>
   (30 \<le> a \<and> a \<le> 39 \<longrightarrow>
      get_baseline 1 a 1 = 1.4 \<and> get_baseline 1 a 0 = 1.1 \<and>
      get_baseline 0 a 1 = 1.2 \<and> get_baseline 0 a 0 = 0.9) \<and>
   (40 \<le> a \<and> a \<le> 54 \<longrightarrow>
      get_baseline 1 a 1 = 1.3 \<and> get_baseline 1 a 0 = 1.0 \<and>
      get_baseline 0 a 1 = 1.1 \<and> get_baseline 0 a 0 = 0.9) \<and>
   (55 \<le> a \<longrightarrow>
      get_baseline 1 a 1 = 1.2 \<and> get_baseline 1 a 0 = 0.9 \<and>
      get_baseline 0 a 1 = 1.0 \<and> get_baseline 0 a 0 = 0.8) \<and>
   get_baseline 1 30 1 = 1.4 \<and> get_baseline 0 60 0 = 0.8"
  by (simp add: get_baseline_def)

theorem get_baseline_table_witness:
  "get_baseline 1 22 1 = 1.5 \<and> get_baseline 1 27 0 = 1.1 \<and> get_baseline 0 35 1 = 1.2 \<and>
   get_baseline 0 54 0 = 0.9 \<and> get_baseline 1 55 0 = 0.9 \<and> get_baseline 0 90 1 = 1.0"
  using get_baseline_table [of 22] get_baseline_table [of 27] get_baseline_table [of 35]
    get_baseline_table [of 54] get_baseline_table [of 55] get_baseline_table [of 90]
  by simp

text \<open>
  Claim C8.  Called with a difference, has_aki returns whether the difference is at
  least 0.3; called with no difference, an absolute creatinine and the three
  demographics, it returns whether the creatinine is at least 1.5 times the baseline;
  called with neither it raises; called with a creatinine and a missing demographic
  it raises.  The comparisons are those of the floats: \<open>0.3\<close> is the float of the literal,
  the product is the float64 product, and a NaN compares false.
\<close>

theorem has_aki_cases:
  "has_aki (Some (Num x)) scr bl ag ge = Inr (x \<ge> fl64 0.3) \<and>
   has_aki (Some NaN) scr bl ag ge = Inr False \<and>
   has_aki None (Some (Num y)) (Some b) (Some a) (Some g)
     = Inr (y \<ge> fl64 (fl64 1.5 * fl64 (get_baseline b a g))) \<and>
   has_aki None (Some NaN) (Some b) (Some a) (Some g) = Inr False \<and>
   has_aki None None bl ag ge = Inl AssertionError \<and>
   (bl = None \<or> ag = None \<or> ge = None \<longrightarrow>
      has_aki None (Some s) bl ag ge = Inl AssertionError)"
  by (auto simp: has_aki_def split: option.splits)

text \<open>
  The witness sits on the boundaries: a difference equal to the float of \<open>0.3\<close> is an AKI,
  the difference of the floats \<open>0.7\<close> and \<open>0.4\<close> is not; for a non-black man of 45 (baseline
  1.1) a creatinine equal to the product is an AKI, the float of \<open>1.65\<close> is not.
\<close>

theorem has_aki_cases_witness:
  "has_aki (Some (Num (fl64 0.3))) None None None None = Inr True \<and>
   has_aki (Some (Num (fl64 (fl64 0.7 - fl64 0.4)))) None None None None = Inr False \<and>
   has_aki (Some NaN) None None None None = Inr False \<and>
   has_aki None (Some (Num (fl64 (fl64 1.5 * fl64 1.1)))) (Some 0) (Some 45) (Some 1) = Inr True \<and>
   has_aki None (Some (Num (fl64 1.65))) (Some 0) (Some 45) (Some 1) = Inr False \<and>
   has_aki None None (Some 0) (Some 45) (Some 1) = Inl AssertionError \<and>
   has_aki None (Some (Num (fl64 1.65))) (Some 0) None (Some 1) = Inl AssertionError"
proof -
  have b: "get_baseline 0 45 1 = 1.1" by (simp add: get_baseline_def)
  have d1: "fl64 0.3 \<ge> fl64 0.3" by simp
  have d2: "\<not> fl64 (fl64 0.7 - fl64 0.4) \<ge> fl64 0.3"
    unfolding fl64_0_7_minus_0_4 fl64_0_3 by simp
  have s1: "fl64 (fl64 1.5 * fl64 1.1) \<ge> fl64 (fl64 1.5 * fl64 (get_baseline 0 45 1))"
    unfolding b by simp
  have s2: "\<not> fl64 1.65 \<ge> fl64 (fl64 1.5 * fl64 (get_baseline 0 45 1))"
    unfolding b fl64_threshold_1_1 fl64_1_65 by simp
  note t1 = has_aki_cases [of "fl64 0.3" None None None None
      "fl64 (fl64 1.5 * fl64 1.1)" 0 45 1 "Num (fl64 1.65)"]
  note t2 = has_aki_cases [of "fl64 (fl64 0.7 - fl64 0.4)" None None None None
      "fl64 1.65" 0 45 1 "Num (fl64 1.65)"]
  note t3 = has_aki_cases [of "fl64 0.3" None "Some 0" None "Some 1"
      "fl64 1.65" 0 45 1 "Num (fl64 1.65)"]
  note t4 = has_aki_cases [of "fl64 0.3" None "Some 0" "Some 45" "Some 1"
      "fl64 1.65" 0 45 1 "Num (fl64 1.65)"]
  show ?thesis
    using t1 t2 t3 t4 d1 d2 s1 s2 by simp
qed

text \<open>
  Claim C9.  Called with both a difference and an absolute creatinine, has_aki raises
  nothing: the difference alone decides, and the creatinine and the demographics are
  ignored, whatever they are.
\<close>

theorem has_aki_both_supplied:
  "has_aki (Some d) (Some s) bl ag ge = Inr (cell_ge d (Num (fl64 0.3)))"
  by (simp add: has_aki_def)

section \<open>Properties of the stay imputer\<close>

lemma distinct_read_csv: "distinct (map fst (read_csv rows))"
  by (simp add: read_csv_def)

lemma to_csv_read_csv: "to_csv (read_csv rows) = rows"
  by (simp add: read_csv_def to_csv_def)

lemma distinct_fst_filter: "distinct (map fst df) \<Longrightarrow> distinct (map fst (filter P df))"
  by (rule distinct_map_filter)

lemma unique_set: "set (unique xs) = set xs"
  by (induction xs rule: unique.induct) auto

lemma unique_distinct: "distinct (unique xs)"
  by (induction xs rule: unique.induct) (auto simp: unique_set)

lemma stay_frame_drop_stay: "stay_frame s' (drop_stay s df) = (if s' = s then [] else stay_frame s' df)"
  by (induction df) (auto simp: stay_frame_def drop_stay_def)

lemma stay_frame_idem: "stay_frame s (stay_frame s df) = stay_frame s df"
  by (simp add: stay_frame_def)

lemma stay_frame_other: "s' \<noteq> s \<Longrightarrow> stay_frame s' (stay_frame s df) = []"
  by (induction df) (auto simp: stay_frame_def)

lemma stay_frame_drop_labels: "stay_frame s (drop_labels ls df) = drop_labels ls (stay_frame s df)"
  by (induction df) (auto simp: stay_frame_def drop_labels_def)

lemma drop_labels_none: "set ls \<inter> fst ` set df = {} \<Longrightarrow> drop_labels ls df = df"
  by (induction df) (auto simp: drop_labels_def)

lemma labels_other_stay:
  assumes "distinct (map fst df)" "s' \<noteq> s"
  shows "fst ` set (stay_frame s df) \<inter> fst ` set (stay_frame s' df) = {}"
  using assms
proof (induction df)
  case Nil
  then show ?case by (simp add: stay_frame_def)
next
  case (Cons a df)
  then show ?case by (auto simp: stay_frame_def image_iff)
qed

lemma drop_labels_all: "drop_labels (map fst sub) sub = []"
  unfolding drop_labels_def filter_empty_conv by force

lemma drop_labels_take:
  "distinct (map fst sub) \<Longrightarrow> drop_labels (drop k (map fst sub)) sub = take k sub"
proof (induction sub arbitrary: k)
  case Nil
  then show ?case by (simp add: drop_labels_def)
next
  case (Cons a sub)
  show ?case
  proof (cases k)
    case 0
    then show ?thesis using drop_labels_all [of "a # sub"] by simp
  next
    case (Suc k')
    have "fst a \<notin> set (drop k' (map fst sub))"
      using Cons.prems by (auto dest: in_set_dropD)
    with Cons Suc show ?thesis by (auto simp: drop_labels_def)
  qed
qed


lemma fill_frame_fst: "map fst (fill_frame sub) = map fst sub"
  by (rule nth_equalityI) (auto simp: fill_frame_def split: prod.splits)

lemma fill_frame_length: "length (fill_frame sub) = length sub"
  by (simp add: fill_frame_def)

lemma fill_frame_nth:
  "i < length sub \<Longrightarrow>
   fill_frame sub ! i = (fst (sub ! i), (snd (sub ! i))\<lparr>vals := (\<lambda>f. bfill (ffill (column f sub)) ! i)\<rparr>)"
  by (simp add: fill_frame_def split: prod.splits)

lemma fill_frame_stay_id:
  assumes "(l, r) \<in> set (fill_frame sub)"
  shows "\<exists>r0. (l, r0) \<in> set sub \<and> stay_id r = stay_id r0"
proof -
  from assms obtain i where i: "i < length sub" "fill_frame sub ! i = (l, r)"
    by (auto simp: in_set_conv_nth fill_frame_length)
  then have "l = fst (sub ! i)" "stay_id r = stay_id (snd (sub ! i))"
    by (auto simp: fill_frame_nth)
  moreover have "sub ! i \<in> set sub" using i by simp
  ultimately show ?thesis by (metis prod.collapse)
qed

lemma column_map_snd: "column f df = map (\<lambda>r. vals r f) (map snd df)"
  by (simp add: column_def split_def)

lemma column_length: "length (column f df) = length df"
  by (simp add: column_def)

lemma fill_frame_snd:
  "map snd (fill_frame sub) =
   map (\<lambda>(i, r). r\<lparr>vals := (\<lambda>f. bfill (ffill (map (\<lambda>r. vals r f) (map snd sub))) ! i)\<rparr>)
     (zip [0..<length sub] (map snd sub))"
  by (rule nth_equalityI) (auto simp: fill_frame_length fill_frame_nth column_map_snd)

lemma loc_assign_fst: "map fst (loc_assign s rhs df) = map fst df"
  by (induction df) (auto simp: loc_assign_def loc_assign_row_def split: option.splits)

lemma loc_assign_assign1: "loc_assign s rhs df = map (loc_assign_row s rhs) df"
  by (simp add: loc_assign_def)

lemma assign1_hit:
  "stay_id r = s \<Longrightarrow> map_of rhs l = Some r' \<Longrightarrow> loc_assign_row s rhs (l, r) = (l, r')"
  by (simp add: loc_assign_row_def)

lemma assign1_stay:
  assumes "\<And>l r. (l, r) \<in> set rhs \<Longrightarrow> stay_id r = s"
  shows "(stay_id (snd (loc_assign_row s rhs x)) = s') = (stay_id (snd x) = s')"
proof (cases x)
  case (Pair l r)
  show ?thesis
  proof (cases "stay_id r = s")
    case True
    show ?thesis
    proof (cases "map_of rhs l")
      case None
      with Pair True show ?thesis by (simp add: loc_assign_row_def)
    next
      case (Some r')
      then have "stay_id r' = s" using assms map_of_SomeD by fastforce
      with Pair True Some show ?thesis by (simp add: loc_assign_row_def)
    qed
  next
    case False
    with Pair show ?thesis by (simp add: loc_assign_row_def)
  qed
qed

lemma stay_frame_alt: "stay_frame s df = filter (\<lambda>x. stay_id (snd x) = s) df"
  by (simp add: stay_frame_def split_def)

lemma stay_frame_loc_assign:
  assumes "\<And>l r. (l, r) \<in> set rhs \<Longrightarrow> stay_id r = s"
  shows "stay_frame s' (loc_assign s rhs df) = map (loc_assign_row s rhs) (stay_frame s' df)"
proof -
  have "\<And>x. (stay_id (snd (loc_assign_row s rhs x)) = s') = (stay_id (snd x) = s')"
    by (rule assign1_stay) (rule assms)
  then show ?thesis
    by (simp add: stay_frame_alt loc_assign_assign1 filter_map o_def)
qed

lemma assign1_other: "stay_id (snd x) \<noteq> s \<Longrightarrow> loc_assign_row s rhs x = x"
  by (cases x) (simp add: loc_assign_row_def)

lemma stay_frame_loc_assign_other:
  assumes "\<And>l r. (l, r) \<in> set rhs \<Longrightarrow> stay_id r = s" "s' \<noteq> s"
  shows "stay_frame s' (loc_assign s rhs df) = stay_frame s' df"
proof -
  have "map (loc_assign_row s rhs) (stay_frame s' df) = map (\<lambda>x. x) (stay_frame s' df)"
    using assms(2) by (intro map_cong refl assign1_other) (auto simp: stay_frame_alt)
  then show ?thesis using stay_frame_loc_assign [OF assms(1)] by simp
qed

lemma stay_frame_loc_assign_same:
  assumes "distinct (map fst df)" "map fst rhs = map fst (stay_frame s df)"
    "\<And>l r. (l, r) \<in> set rhs \<Longrightarrow> stay_id r = s"
  shows "stay_frame s (loc_assign s rhs df) = rhs"
proof -
  have len: "length rhs = length (stay_frame s df)"
    using assms(2) by (metis length_map)
  have d: "distinct (map fst rhs)"
    using assms(1,2) by (simp add: stay_frame_def distinct_map_filter)
  have "map (loc_assign_row s rhs) (stay_frame s df) = rhs"
  proof (rule nth_equalityI)
    show "length (map (loc_assign_row s rhs) (stay_frame s df)) = length rhs" using len by simp
  next
    fix i assume "i < length (map (loc_assign_row s rhs) (stay_frame s df))"
    then have i: "i < length (stay_frame s df)" by simp
    obtain l r where lr: "stay_frame s df ! i = (l, r)" by (cases "stay_frame s df ! i")
    have "(l, r) \<in> set (stay_frame s df)" using i lr by (metis nth_mem)
    then have sid: "stay_id r = s" by (auto simp: stay_frame_def)
    have fst_eq: "fst (rhs ! i) = l"
      using assms(2) i lr len by (metis fst_conv nth_map)
    then have "(l, snd (rhs ! i)) \<in> set rhs"
      using i len by (metis nth_mem prod.collapse)
    then have "map_of rhs l = Some (snd (rhs ! i))"
      using d by simp
    then have "loc_assign_row s rhs (l, r) = (l, snd (rhs ! i))"
      using sid by (rule assign1_hit [rotated])
    moreover have "rhs ! i = (l, snd (rhs ! i))"
      using fst_eq by (metis prod.collapse)
    ultimately show "map (loc_assign_row s rhs) (stay_frame s df) ! i = rhs ! i"
      using i lr by simp
  qed
  then show ?thesis using stay_frame_loc_assign [OF assms(3)] by simp
qed


lemma stay_frame_all:
  "(\<And>l r. (l, r) \<in> set df \<Longrightarrow> stay_id r = s) \<Longrightarrow> stay_frame s df = df"
  by (induction df) (auto simp: stay_frame_def)

lemma stay_frame_set: "(l, r) \<in> set (stay_frame s df) \<longleftrightarrow> (l, r) \<in> set df \<and> stay_id r = s"
  by (auto simp: stay_frame_def)

lemma drop_stay_distinct: "distinct (map fst df) \<Longrightarrow> distinct (map fst (drop_stay s df))"
  by (simp add: drop_stay_def distinct_map_filter)

lemma drop_labels_distinct: "distinct (map fst df) \<Longrightarrow> distinct (map fst (drop_labels ls df))"
  by (simp add: drop_labels_def distinct_map_filter)

lemma stay_frame_distinct: "distinct (map fst df) \<Longrightarrow> distinct (map fst (stay_frame s df))"
  by (simp add: stay_frame_def distinct_map_filter)

lemma drop_gap_distinct: "distinct (map fst df) \<Longrightarrow> distinct (map fst (drop_gap s k df))"
  by (simp add: drop_gap_def drop_labels_distinct)

lemma stay_frame_drop_gap_same:
  "stay_frame s (drop_gap s k df) = drop_gap s k (stay_frame s df)"
  by (simp add: drop_gap_def stay_frame_drop_labels stay_frame_idem)

lemma stay_frame_drop_gap_other:
  assumes "distinct (map fst df)" "s' \<noteq> s"
  shows "stay_frame s' (drop_gap s k df) = stay_frame s' df"
proof (cases "k = -1")
  case True
  then show ?thesis by (simp add: drop_gap_def)
next
  case False
  have "set (drop (nat k) (map fst (stay_frame s df))) \<subseteq> fst ` set (stay_frame s df)"
    by (metis set_drop_subset set_map)
  then have "set (drop (nat k) (map fst (stay_frame s df))) \<inter> fst ` set (stay_frame s' df) = {}"
    using labels_other_stay [OF assms] by blast
  then show ?thesis
    using False by (simp add: drop_gap_def stay_frame_drop_labels drop_labels_none)
qed

lemma drop_gap_single:
  assumes "distinct (map fst sub)" "\<And>l r. (l, r) \<in> set sub \<Longrightarrow> stay_id r = s"
  shows "drop_gap s k sub = (if k \<noteq> -1 then take (nat k) sub else sub)"
  using assms by (simp add: drop_gap_def stay_frame_all drop_labels_take)

lemma fill_frame_rows_stay:
  assumes "(l, r) \<in> set (fill_frame (stay_frame s df))"
  shows "stay_id r = s"
  using fill_frame_stay_id [OF assms] by (auto simp: stay_frame_set)

lemma fill_nas_or_drop_distinct:
  "distinct (map fst df) \<Longrightarrow> distinct (map fst (fill_nas_or_drop df s fs))"
  by (simp add: fill_nas_or_drop_def drop_stay_distinct loc_assign_fst)

lemma stay_frame_fill_other:
  assumes "s' \<noteq> s"
  shows "stay_frame s' (fill_nas_or_drop df s fs) = stay_frame s' df"
  using assms fill_frame_rows_stay
  by (auto simp: fill_nas_or_drop_def stay_frame_drop_stay intro!: stay_frame_loc_assign_other)

lemma stay_frame_fill_same:
  assumes "distinct (map fst df)"
  shows "stay_frame s (fill_nas_or_drop df s fs) =
     (if list_ex (\<lambda>f. \<not> list_ex isfinite (column f (stay_frame s df))) fs then []
      else fill_frame (stay_frame s df))"
  using assms fill_frame_rows_stay
  by (auto simp: fill_nas_or_drop_def stay_frame_drop_stay fill_frame_fst
           intro!: stay_frame_loc_assign_same)

lemma impute_stay_distinct:
  "distinct (map fst df) \<Longrightarrow> distinct (map fst (impute_stay s df))"
  by (simp add: impute_stay_def Let_def drop_stay_distinct fill_nas_or_drop_distinct drop_gap_distinct)

lemma stay_frame_impute_other:
  assumes "distinct (map fst df)" "s' \<noteq> s"
  shows "stay_frame s' (impute_stay s df) = stay_frame s' df"
  using assms
  by (simp add: impute_stay_def Let_def stay_frame_drop_stay stay_frame_fill_other
        stay_frame_drop_gap_other)

lemma stay_frame_impute_same:
  assumes "distinct (map fst df)"
  shows "stay_frame s (impute_stay s df) =
     (let sub = stay_frame s df in
      if length sub < 3 then []
      else if \<not> list_ex isfinite (drop 2 (column Creatinine sub)) then []
      else
        let nan_index = get_nan_index (column Creatinine sub) in
        if nan_index = 2 then []
        else
          let sub' = (if nan_index \<noteq> -1 then take (nat nan_index) sub else sub) in
          if list_ex (\<lambda>f. \<not> list_ex isfinite (column f sub')) features then []
          else fill_frame sub')"
proof -
  have d: "distinct (map fst (stay_frame s df))" using assms by (rule stay_frame_distinct)
  have g: "\<And>k. stay_frame s (drop_gap s k df) = (if k \<noteq> -1 then take (nat k) (stay_frame s df) else stay_frame s df)"
    unfolding stay_frame_drop_gap_same
    by (rule drop_gap_single [OF d]) (simp add: stay_frame_set)
  show ?thesis
    unfolding impute_stay_def Let_def
    by (simp add: stay_frame_drop_stay stay_frame_fill_same [OF drop_gap_distinct [OF assms]] g)
qed

lemma fold_impute_distinct:
  "distinct (map fst df) \<Longrightarrow> distinct (map fst (fold impute_stay ids df))"
  by (induction ids arbitrary: df) (simp_all add: impute_stay_distinct)

lemma stay_frame_fold_impute:
  assumes "distinct (map fst df)" "distinct ids"
  shows "stay_frame s (fold impute_stay ids df) =
     (if s \<in> set ids then stay_frame s (impute_stay s df) else stay_frame s df)"
  using assms
proof (induction ids arbitrary: df)
  case Nil
  then show ?case by simp
next
  case (Cons x xs)
  have d': "distinct (map fst (impute_stay x df))"
    using Cons.prems(1) by (rule impute_stay_distinct)
  have dx: "distinct xs" "x \<notin> set xs" using Cons.prems(2) by auto
  have IH: "stay_frame s (fold impute_stay xs (impute_stay x df)) =
     (if s \<in> set xs then stay_frame s (impute_stay s (impute_stay x df))
      else stay_frame s (impute_stay x df))"
    by (rule Cons.IH [OF d' dx(1)])
  show ?case
  proof (cases "s = x")
    case True
    then show ?thesis using IH dx by simp
  next
    case False
    have o: "stay_frame s (impute_stay x df) = stay_frame s df"
      using Cons.prems(1) False by (rule stay_frame_impute_other)
    have "stay_frame s (impute_stay s (impute_stay x df)) = stay_frame s (impute_stay s df)"
      unfolding stay_frame_impute_same [OF d'] stay_frame_impute_same [OF Cons.prems(1)] o ..
    then show ?thesis using IH False o by simp
  qed
qed


lemma stay_rows_to_csv: "stay_rows s (to_csv df) = map snd (stay_frame s df)"
  by (induction df) (auto simp: stay_rows_def to_csv_def stay_frame_def)

lemma stay_frame_read_csv: "map snd (stay_frame s (read_csv rows)) = stay_rows s rows"
  using stay_rows_to_csv [of s "read_csv rows"] by (simp add: to_csv_read_csv)

lemma stay_ids_of_set: "s \<in> set (stay_ids_of df) \<longleftrightarrow> stay_frame s df \<noteq> []"
  by (auto simp: stay_ids_of_def unique_set stay_frame_def filter_empty_conv)

lemma stay_ids_of_distinct: "distinct (stay_ids_of df)"
  by (simp add: stay_ids_of_def unique_distinct)

lemma fill_frame_Nil: "fill_frame [] = []"
  by (simp add: fill_frame_def)

lemma impute_holes_stay_frame:
  "stay_rows s (impute_holes rows) =
     map snd (stay_frame s (impute_stay s (read_csv rows)))"
proof -
  let ?df = "read_csv rows"
  have d: "distinct (map fst ?df)" by (rule distinct_read_csv)
  have di: "distinct (stay_ids_of ?df)" by (rule stay_ids_of_distinct)
  have "stay_frame s (fold impute_stay (stay_ids_of ?df) ?df) = stay_frame s (impute_stay s ?df)"
  proof (cases "s \<in> set (stay_ids_of ?df)")
    case True
    then show ?thesis
      using stay_frame_fold_impute [OF d di, of s] by simp
  next
    case False
    then have e: "stay_frame s ?df = []" by (simp add: stay_ids_of_set)
    have "stay_frame s (impute_stay s ?df) = []"
      unfolding stay_frame_impute_same [OF d] e by simp
    then show ?thesis
      using False e stay_frame_fold_impute [OF d di, of s] by simp
  qed
  then show ?thesis
    by (simp add: impute_holes_def Let_def stay_rows_to_csv)
qed

lemma impute_holes_stay:
  "stay_rows s (impute_holes rows) =
     (let rs = stay_rows s rows; cs = map (\<lambda>r. vals r Creatinine) rs in
      if length rs < 3 then []
      else if \<not> list_ex isfinite (drop 2 cs) then []
      else
        let k = get_nan_index cs in
        if k = 2 then []
        else
          let rs' = (if k \<noteq> -1 then take (nat k) rs else rs) in
          if list_ex (\<lambda>f. \<not> list_ex isfinite (map (\<lambda>r. vals r f) rs')) features then []
          else map (\<lambda>(i, r). r\<lparr>vals := (\<lambda>f. bfill (ffill (map (\<lambda>r. vals r f) rs')) ! i)\<rparr>)
                 (zip [0..<length rs'] rs'))"
proof -
  let ?sub = "stay_frame s (read_csv rows)"
  have rs: "map snd ?sub = stay_rows s rows" by (rule stay_frame_read_csv)
  have len: "length ?sub = length (stay_rows s rows)" using rs by (metis length_map)
  have col: "\<And>f. column f ?sub = map (\<lambda>r. vals r f) (stay_rows s rows)"
    by (simp add: column_map_snd rs)
  have colt: "\<And>f k. column f (take k ?sub) = map (\<lambda>r. vals r f) (take k (stay_rows s rows))"
    by (simp add: column_map_snd rs take_map [symmetric] del: take_map)
  have ft: "\<And>k. map snd (fill_frame (take k ?sub)) =
      map (\<lambda>(i, r). r\<lparr>vals := (\<lambda>f. bfill (ffill (map (\<lambda>r. vals r f) (take k (stay_rows s rows)))) ! i)\<rparr>)
        (zip [0..<length (take k (stay_rows s rows))] (take k (stay_rows s rows)))"
    unfolding fill_frame_snd by (simp add: rs take_map [symmetric] len del: take_map)
  have f: "map snd (fill_frame ?sub) =
      map (\<lambda>(i, r). r\<lparr>vals := (\<lambda>f. bfill (ffill (map (\<lambda>r. vals r f) (stay_rows s rows))) ! i)\<rparr>)
        (zip [0..<length (stay_rows s rows)] (stay_rows s rows))"
    unfolding fill_frame_snd by (simp add: rs len)
  show ?thesis
    unfolding impute_holes_stay_frame stay_frame_impute_same [OF distinct_read_csv] Let_def
    by (simp add: col colt len ft f)
qed

lemma scan_from_none: "scan_from xs i = -1 \<longleftrightarrow> (\<forall>x \<in> set xs. \<not> x)"
  by (induction xs i rule: scan_from.induct) auto

lemma scan_from_some:
  "scan_from xs i \<noteq> -1 \<Longrightarrow>
   \<exists>j < length xs. scan_from xs i = int (i + j) + 2 \<and> xs ! j \<and> (\<forall>m < j. \<not> xs ! m)"
proof (induction xs i rule: scan_from.induct)
  case (1 i)
  then show ?case by simp
next
  case (2 x xs i)
  show ?case
  proof (cases x)
    case True
    then show ?thesis by (intro exI [of _ 0]) simp
  next
    case False
    with 2 obtain j where j: "j < length xs" "scan_from xs (i + 1) = int (i + 1 + j) + 2"
      "xs ! j" "\<forall>m < j. \<not> xs ! m" by auto
    show ?thesis
    proof (intro exI [of _ "Suc j"] conjI allI impI)
      show "Suc j < length (x # xs)" using j by simp
      show "scan_from (x # xs) i = int (i + Suc j) + 2" using False j by simp
      show "(x # xs) ! Suc j" using j by simp
      fix m assume "m < Suc j"
      then show "\<not> (x # xs) ! m" using False j by (cases m) auto
    qed
  qed
qed

lemma drop2_nth: "j + 2 < length cs \<Longrightarrow> drop 2 (map g cs) ! j = g (cs ! (j + 2))"
  by (simp add: add.commute)

lemma drop2_all:
  "(\<forall>x \<in> set (drop 2 (map (\<lambda>x. \<not> isfinite x) cs)). \<not> x) \<longleftrightarrow>
   (\<forall>j. 2 \<le> j \<and> j < length cs \<longrightarrow> isfinite (cs ! j))"
proof
  assume a: "\<forall>x \<in> set (drop 2 (map (\<lambda>x. \<not> isfinite x) cs)). \<not> x"
  show "\<forall>j. 2 \<le> j \<and> j < length cs \<longrightarrow> isfinite (cs ! j)"
  proof (intro allI impI)
    fix j assume j: "2 \<le> j \<and> j < length cs"
    then have l: "j - 2 < length (drop 2 (map (\<lambda>x. \<not> isfinite x) cs))" by (simp; arith)
    have "j - 2 + 2 < length cs" using j by arith
    then have "drop 2 (map (\<lambda>x. \<not> isfinite x) cs) ! (j - 2) = (\<not> isfinite (cs ! (j - 2 + 2)))"
      by (rule drop2_nth)
    moreover have "j - 2 + 2 = j" using j by arith
    ultimately show "isfinite (cs ! j)" using a nth_mem [OF l] by auto
  qed
next
  assume a: "\<forall>j. 2 \<le> j \<and> j < length cs \<longrightarrow> isfinite (cs ! j)"
  show "\<forall>x \<in> set (drop 2 (map (\<lambda>x. \<not> isfinite x) cs)). \<not> x"
  proof
    fix x assume "x \<in> set (drop 2 (map (\<lambda>x. \<not> isfinite x) cs))"
    then obtain i where i: "i < length (drop 2 (map (\<lambda>x. \<not> isfinite x) cs))"
      "x = drop 2 (map (\<lambda>x. \<not> isfinite x) cs) ! i"
      by (auto simp: in_set_conv_nth)
    then have l: "i + 2 < length cs" by (simp; arith)
    then have "x = (\<not> isfinite (cs ! (i + 2)))" using i(2) by (simp only: drop2_nth)
    then show "\<not> x" using a l by simp
  qed
qed

lemma get_nan_index_none:
  "get_nan_index cs = -1 \<longleftrightarrow> (\<forall>j. 2 \<le> j \<and> j < length cs \<longrightarrow> isfinite (cs ! j))"
  by (simp add: get_nan_index_def scan_from_none drop2_all)

lemma get_nan_index_some:
  assumes "get_nan_index cs \<noteq> -1"
  shows "2 \<le> get_nan_index cs \<and> nat (get_nan_index cs) < length cs \<and>
         \<not> isfinite (cs ! nat (get_nan_index cs)) \<and>
         (\<forall>j. 2 \<le> j \<and> j < nat (get_nan_index cs) \<longrightarrow> isfinite (cs ! j))"
proof -
  let ?xs = "drop 2 (map (\<lambda>x. \<not> isfinite x) cs)"
  from assms have "scan_from ?xs 0 \<noteq> -1" by (simp add: get_nan_index_def)
  from scan_from_some [OF this] obtain j where j: "j < length ?xs"
    "scan_from ?xs 0 = int (0 + j) + 2" "?xs ! j" "\<forall>m < j. \<not> ?xs ! m" by blast
  have k: "get_nan_index cs = int j + 2" using j(2) by (simp add: get_nan_index_def)
  have jl: "j + 2 < length cs" using j(1) by simp
  have "\<forall>m. 2 \<le> m \<and> m < j + 2 \<longrightarrow> isfinite (cs ! m)"
  proof (intro allI impI)
    fix m assume m: "2 \<le> m \<and> m < j + 2"
    then have "m - 2 < j" by arith
    then have "\<not> ?xs ! (m - 2)" using j(4) by blast
    moreover have "m - 2 + 2 < length cs" using m jl by arith
    then have "?xs ! (m - 2) = (\<not> isfinite (cs ! (m - 2 + 2)))" by (rule drop2_nth)
    moreover have "m - 2 + 2 = m" using m by arith
    ultimately show "isfinite (cs ! m)" by simp
  qed
  moreover have "\<not> isfinite (cs ! (j + 2))" using j(3) drop2_nth [OF jl, of "\<lambda>x. \<not> isfinite x"] by simp
  moreover have "nat (int j + 2) = j + 2" by simp
  ultimately show ?thesis using jl unfolding k by simp
qed

lemma length_ffill_from: "length (ffill_from p xs) = length xs"
  by (induction xs arbitrary: p) auto

lemma length_ffill: "length (ffill xs) = length xs"
  by (simp add: ffill_def length_ffill_from)

lemma length_bfill: "length (bfill xs) = length xs"
  by (induction xs) (auto simp: Let_def)

lemma ffill_from_gap:
  "i < length xs \<Longrightarrow> \<forall>m \<le> i. \<not> isfinite (xs ! m) \<Longrightarrow> ffill_from p xs ! i = p"
proof (induction xs arbitrary: i)
  case Nil
  then show ?case by simp
next
  case (Cons x xs)
  from Cons.prems(2) have x: "\<not> isfinite x" by (metis le0 nth_Cons_0)
  show ?case
  proof (cases i)
    case 0
    then show ?thesis using x by simp
  next
    case (Suc i')
    have "\<forall>m \<le> i'. \<not> isfinite (xs ! m)"
      using Cons.prems(2) Suc by (metis Suc_le_mono nth_Cons_Suc)
    then show ?thesis using Cons Suc x by simp
  qed
qed

lemma ffill_from_nearest:
  "i < length xs \<Longrightarrow> j \<le> i \<Longrightarrow> isfinite (xs ! j) \<Longrightarrow>
   \<forall>m. j < m \<and> m \<le> i \<longrightarrow> \<not> isfinite (xs ! m) \<Longrightarrow> ffill_from p xs ! i = xs ! j"
proof (induction xs arbitrary: i j p)
  case Nil
  then show ?case by simp
next
  case (Cons x xs)
  show ?case
  proof (cases i)
    case 0
    then show ?thesis using Cons.prems by simp
  next
    case (Suc i')
    show ?thesis
    proof (cases j)
      case 0
      have "\<forall>m \<le> i'. \<not> isfinite (xs ! m)"
      proof (intro allI impI)
        fix m assume "m \<le> i'"
        then have "j < Suc m \<and> Suc m \<le> i" using 0 Suc by simp
        then have "\<not> isfinite ((x # xs) ! Suc m)" using Cons.prems(4) by blast
        then show "\<not> isfinite (xs ! m)" by simp
      qed
      then have "ffill_from x xs ! i' = x"
        using Cons.prems(1) Suc by (intro ffill_from_gap) auto
      then show ?thesis using Cons.prems(3) 0 Suc by simp
    next
      case (Suc j')
      have g: "\<forall>m. j' < m \<and> m \<le> i' \<longrightarrow> \<not> isfinite (xs ! m)"
      proof (intro allI impI)
        fix m assume "j' < m \<and> m \<le> i'"
        then have "j < Suc m \<and> Suc m \<le> i" using Suc \<open>i = Suc i'\<close> by simp
        then have "\<not> isfinite ((x # xs) ! Suc m)" using Cons.prems(4) by blast
        then show "\<not> isfinite (xs ! m)" by simp
      qed
      have "\<And>q. ffill_from q xs ! i' = xs ! j'"
        using Cons.prems Suc \<open>i = Suc i'\<close> g by (intro Cons.IH) auto
      then show ?thesis using Suc \<open>i = Suc i'\<close> by simp
    qed
  qed
qed

lemma bfill_keeps: "i < length ys \<Longrightarrow> isfinite (ys ! i) \<Longrightarrow> bfill ys ! i = ys ! i"
proof (induction ys arbitrary: i)
  case Nil
  then show ?case by simp
next
  case (Cons y ys)
  then show ?case by (cases i) (auto simp: Let_def)
qed

lemma bfill_next:
  "j < length ys \<Longrightarrow> i \<le> j \<Longrightarrow> isfinite (ys ! j) \<Longrightarrow>
   \<forall>m. i \<le> m \<and> m < j \<longrightarrow> \<not> isfinite (ys ! m) \<Longrightarrow> bfill ys ! i = ys ! j"
proof (induction ys arbitrary: i j)
  case Nil
  then show ?case by simp
next
  case (Cons y ys)
  show ?case
  proof (cases j)
    case 0
    then show ?thesis using Cons.prems by (simp add: Let_def)
  next
    case (Suc j')
    show ?thesis
    proof (cases i)
      case 0
      have "\<not> isfinite y" using Cons.prems(4) 0 Suc by (metis le0 nth_Cons_0 zero_less_Suc)
      have g: "\<forall>m. 0 \<le> m \<and> m < j' \<longrightarrow> \<not> isfinite (ys ! m)"
      proof (intro allI impI)
        fix m assume "0 \<le> m \<and> m < j'"
        then have "i \<le> Suc m \<and> Suc m < j" using 0 Suc by simp
        then have "\<not> isfinite ((y # ys) ! Suc m)" using Cons.prems(4) by blast
        then show "\<not> isfinite (ys ! m)" by simp
      qed
      have h: "bfill ys ! 0 = ys ! j'"
        using Cons.prems Suc g by (intro Cons.IH) auto
      have "bfill ys \<noteq> []" using Cons.prems(1) Suc by (metis length_bfill length_0_conv list.size(3) not_less0 Suc_less_eq length_Cons)
      then obtain z zs where z: "bfill ys = z # zs" by (cases "bfill ys") auto
      then show ?thesis using \<open>\<not> isfinite y\<close> h 0 Suc by (simp add: Let_def)
    next
      case (Suc i')
      have g: "\<forall>m. i' \<le> m \<and> m < j' \<longrightarrow> \<not> isfinite (ys ! m)"
      proof (intro allI impI)
        fix m assume "i' \<le> m \<and> m < j'"
        then have "i \<le> Suc m \<and> Suc m < j" using Suc \<open>j = Suc j'\<close> by simp
        then have "\<not> isfinite ((y # ys) ! Suc m)" using Cons.prems(4) by blast
        then show "\<not> isfinite (ys ! m)" by simp
      qed
      have "bfill ys ! i' = ys ! j'"
        using Cons.prems Suc \<open>j = Suc j'\<close> g by (intro Cons.IH) auto
      then show ?thesis using Suc \<open>j = Suc j'\<close> by (simp add: Let_def)
    qed
  qed
qed

text \<open>Forward fill followed by backward fill.\<close>

lemma fill_earlier:
  assumes "i < length xs" "j \<le> i" "isfinite (xs ! j)"
    "\<forall>m. j < m \<and> m \<le> i \<longrightarrow> \<not> isfinite (xs ! m)"
  shows "bfill (ffill xs) ! i = xs ! j"
proof -
  have "ffill xs ! i = xs ! j"
    unfolding ffill_def using assms by (rule ffill_from_nearest)
  then show ?thesis using assms(1,3) by (simp add: bfill_keeps length_ffill)
qed

lemma fill_later:
  assumes "j < length xs" "i < j" "isfinite (xs ! j)"
    "\<forall>m < j. \<not> isfinite (xs ! m)"
  shows "bfill (ffill xs) ! i = xs ! j"
proof -
  have fj: "ffill xs ! j = xs ! j"
    unfolding ffill_def using assms(1,3) by (intro ffill_from_nearest) auto
  have fm: "\<forall>m. i \<le> m \<and> m < j \<longrightarrow> \<not> isfinite (ffill xs ! m)"
  proof (intro allI impI)
    fix m assume m: "i \<le> m \<and> m < j"
    have "ffill_from NaN xs ! m = NaN"
      using m assms(1,4) by (intro ffill_from_gap) auto
    then show "\<not> isfinite (ffill xs ! m)" by (simp add: ffill_def)
  qed
  have "bfill (ffill xs) ! i = ffill xs ! j"
    using assms(1,2,3) fj fm by (intro bfill_next) (auto simp: length_ffill)
  then show ?thesis using fj by simp
qed

lemma fill_all_finite:
  assumes "list_ex isfinite xs" "i < length xs"
  shows "isfinite (bfill (ffill xs) ! i)"
proof (cases "\<exists>j \<le> i. isfinite (xs ! j)")
  case True
  define j where "j = (GREATEST j. j \<le> i \<and> isfinite (xs ! j))"
  from True obtain j0 where "j0 \<le> i \<and> isfinite (xs ! j0)" by blast
  then have j: "j \<le> i \<and> isfinite (xs ! j)"
    unfolding j_def by (rule GreatestI_nat [where b = i]) simp
  have "\<forall>m. j < m \<and> m \<le> i \<longrightarrow> \<not> isfinite (xs ! m)"
  proof (intro allI impI notI)
    fix m assume m: "j < m \<and> m \<le> i" and f: "isfinite (xs ! m)"
    have "m \<le> j" unfolding j_def
      by (rule Greatest_le_nat [where b = i]) (use m f in auto)
    then show False using m by simp
  qed
  then have "bfill (ffill xs) ! i = xs ! j"
    using assms(2) j by (intro fill_earlier) auto
  then show ?thesis using j by simp
next
  case False
  from assms(1) obtain j0 where j0: "j0 < length xs" "isfinite (xs ! j0)"
    by (auto simp: list_ex_iff in_set_conv_nth)
  define j where "j = (LEAST j. j < length xs \<and> isfinite (xs ! j))"
  have j: "j < length xs \<and> isfinite (xs ! j)"
    unfolding j_def by (rule LeastI [where k = j0]) (use j0 in simp)
  have least: "\<forall>m < j. \<not> isfinite (xs ! m)"
  proof (intro allI impI notI)
    fix m assume m: "m < j" and f: "isfinite (xs ! m)"
    have "m < length xs" using m j by simp
    then have "j \<le> m" unfolding j_def using f by (intro Least_le) simp
    then show False using m by simp
  qed
  have "i < j" using False j by (meson not_le_imp_less)
  then have "bfill (ffill xs) ! i = xs ! j"
    using j least by (intro fill_later) auto
  then show ?thesis using j by simp
qed

lemma features_all: "f \<in> set features"
  by (cases f) (simp_all add: features_def)

lemma list_ex_features: "list_ex P features \<longleftrightarrow> (\<exists>f. P f)"
  by (auto simp: list_ex_iff features_all)

text \<open>The surviving rows of a stay, in the form the theorems below share.\<close>

lemma impute_holes_kept:
  assumes "stay_rows s (impute_holes rows) \<noteq> []"
  defines "rs \<equiv> stay_rows s rows"
  defines "k \<equiv> get_nan_index (map (\<lambda>r. vals r Creatinine) rs)"
  defines "rs' \<equiv> (if k \<noteq> -1 then take (nat k) rs else rs)"
  shows "3 \<le> length rs" "list_ex isfinite (drop 2 (map (\<lambda>r. vals r Creatinine) rs))" "k \<noteq> 2"
    "\<forall>f. list_ex isfinite (map (\<lambda>r. vals r f) rs')"
    "stay_rows s (impute_holes rows) =
       map (\<lambda>(i, r). r\<lparr>vals := (\<lambda>f. bfill (ffill (map (\<lambda>r. vals r f) rs')) ! i)\<rparr>)
         (zip [0..<length rs'] rs')"
proof -
  note m = impute_holes_stay [of s rows, unfolded Let_def, folded rs_def, folded k_def, folded rs'_def]
  show a: "3 \<le> length rs" using assms(1) m by (auto split: if_splits)
  show b: "list_ex isfinite (drop 2 (map (\<lambda>r. vals r Creatinine) rs))"
    using assms(1) m by (auto split: if_splits)
  show c: "k \<noteq> 2" using assms(1) m by (auto split: if_splits)
  show d: "\<forall>f. list_ex isfinite (map (\<lambda>r. vals r f) rs')"
    using assms(1) m a b c by (simp add: list_ex_features split: if_splits)
  show "stay_rows s (impute_holes rows) =
       map (\<lambda>(i, r). r\<lparr>vals := (\<lambda>f. bfill (ffill (map (\<lambda>r. vals r f) rs')) ! i)\<rparr>)
         (zip [0..<length rs'] rs')"
    using m a b c d by (simp add: list_ex_features)
qed

lemma kept_prefix_length:
  assumes "3 \<le> length rs" "k = get_nan_index (map (\<lambda>r. vals r Creatinine) rs)" "k \<noteq> 2"
  shows "3 \<le> length (if k \<noteq> -1 then take (nat k) rs else rs)"
proof (cases "k = -1")
  case True
  then show ?thesis using assms(1) by simp
next
  case False
  then have "2 \<le> k \<and> nat k < length (map (\<lambda>r. vals r Creatinine) rs)"
    using get_nan_index_some [of "map (\<lambda>r. vals r Creatinine) rs"] assms(2) by simp
  moreover from this have "3 \<le> nat k" using assms(3) by arith
  ultimately show ?thesis using False by simp
qed

text \<open>
  Claim C2.  For every stay that has rows in the output of the imputer, the creatinine
  of its first two days (day index 0 and 1) is a number, not NaN: the gap scan looks at
  the indices from 2 on only, but the fill copies a value into the first two days, if
  need be backwards from index 2, whose creatinine is a number in every surviving stay.
  Such a stay has at least three rows.
\<close>

theorem impute_holes_creatinine_first_two:
  assumes "out = stay_rows s (impute_holes rows)" "out \<noteq> []"
  shows "3 \<le> length out \<and> isfinite (vals (out ! 0) Creatinine) \<and> isfinite (vals (out ! 1) Creatinine)"
proof -
  define rs where "rs = stay_rows s rows"
  define k where "k = get_nan_index (map (\<lambda>r. vals r Creatinine) rs)"
  define rs' where "rs' = (if k \<noteq> -1 then take (nat k) rs else rs)"
  have ne: "stay_rows s (impute_holes rows) \<noteq> []" using assms by simp
  note kept = impute_holes_kept [OF ne, folded rs_def, folded k_def, folded rs'_def]
  have len': "3 \<le> length rs'"
    unfolding rs'_def by (rule kept_prefix_length [OF kept(1) k_def kept(3)])
  have out: "out = map (\<lambda>(i, r). r\<lparr>vals := (\<lambda>f. bfill (ffill (map (\<lambda>r. vals r f) rs')) ! i)\<rparr>)
         (zip [0..<length rs'] rs')"
    using kept(5) assms(1) by simp
  have len: "length out = length rs'" unfolding out by simp
  have cell: "\<And>i f. i < length rs' \<Longrightarrow> vals (out ! i) f = bfill (ffill (map (\<lambda>r. vals r f) rs')) ! i"
    unfolding out by simp
  have fin: "\<And>i f. i < length rs' \<Longrightarrow> isfinite (vals (out ! i) f)"
    using kept(4) by (simp add: cell fill_all_finite)
  have l0: "0 < length rs'" and l1: "1 < length rs'" using len' by arith+
  have "isfinite (vals (out ! 0) Creatinine)" by (rule fin [OF l0])
  moreover have "isfinite (vals (out ! 1) Creatinine)" by (rule fin [OF l1])
  ultimately show ?thesis using len len' by simp
qed

lemma features_list_ex_simp:
  "list_ex P features = (P Bicarbonate \<or> P Chloride \<or> P Creatinine \<or> P Glucose \<or> P Magnesium \<or> P Potassium \<or> P Sodium \<or> P Bun \<or> P Hemoglobin \<or> P Platelets \<or> P Wbcs \<or> P Height \<or> P Weight)"
  by (simp add: features_def)

lemma late_creatinine_stay_kept: "stay_rows 2 (impute_holes late_creatinine_table) \<noteq> []"
  unfolding impute_holes_stay
  by (simp add: late_creatinine_table_def day_row_def stay_rows_def get_nan_index_def features_list_ex_simp)

theorem impute_holes_creatinine_first_two_witness:
  "stay_rows 2 (impute_holes late_creatinine_table) \<noteq> [] \<and>
   3 \<le> length (stay_rows 2 (impute_holes late_creatinine_table)) \<and>
   isfinite (vals (stay_rows 2 (impute_holes late_creatinine_table) ! 0) Creatinine) \<and>
   isfinite (vals (stay_rows 2 (impute_holes late_creatinine_table) ! 1) Creatinine)"
  using impute_holes_creatinine_first_two [OF refl late_creatinine_stay_kept] late_creatinine_stay_kept by simp

lemma filled_rows_nth:
  assumes "out = map (\<lambda>(i, r). r\<lparr>vals := (\<lambda>f. bfill (ffill (map (\<lambda>r. vals r f) rs')) ! i)\<rparr>)
         (zip [0..<length rs'] rs')" "i < length rs'"
  shows "out ! i = (rs' ! i)\<lparr>vals := (\<lambda>f. bfill (ffill (map (\<lambda>r. vals r f) rs')) ! i)\<rparr>"
  using assms by simp

text \<open>
  Claim C5.  Take a stay of at least three rows with a creatinine that is a number
  somewhere from index 2 on, and let \<open>k\<close> be the result of the gap scan: \<open>-1\<close> exactly when
  no creatinine from index 2 on is missing, and otherwise the first index from 2 on whose
  creatinine is missing.  If \<open>k = 2\<close> the whole stay is dropped.  If \<open>k > 2\<close> the rule
  removes the rows of the stay from index \<open>k\<close> on, keeps the rows before, and touches no
  other stay; the stay then leaves the imputer with exactly these \<open>k\<close> rows (their cells
  filled), unless the completeness rule that follows drops it.  If there is no such
  \<open>k\<close> the rule removes nothing.
\<close>

theorem impute_holes_first_gap:
  assumes "rs = stay_rows s rows" "cs = map (\<lambda>r. vals r Creatinine) rs"
    "3 \<le> length rs" "list_ex isfinite (drop 2 cs)"
    "k = get_nan_index cs" "out = stay_rows s (impute_holes rows)"
    "df = read_csv rows"
  shows
    "(k = -1 \<longleftrightarrow> (\<forall>j. 2 \<le> j \<and> j < length rs \<longrightarrow> isfinite (cs ! j))) \<and>
     (k \<noteq> -1 \<longrightarrow> 2 \<le> k \<and> nat k < length rs \<and> \<not> isfinite (cs ! nat k) \<and>
                (\<forall>j. 2 \<le> j \<and> j < nat k \<longrightarrow> isfinite (cs ! j))) \<and>
     (k = 2 \<longrightarrow> impute_stay s df = drop_stay s df \<and> out = []) \<and>
     (k \<noteq> 2 \<longrightarrow> impute_stay s df = fill_nas_or_drop (drop_gap s k df) s features) \<and>
     (2 < k \<longrightarrow>
        stay_frame s (drop_gap s k df) = take (nat k) (stay_frame s df) \<and>
        (\<forall>s'. s' \<noteq> s \<longrightarrow> stay_frame s' (drop_gap s k df) = stay_frame s' df) \<and>
        ((\<exists>f. \<not> list_ex isfinite (map (\<lambda>r. vals r f) (take (nat k) rs))) \<longrightarrow> out = []) \<and>
        ((\<forall>f. list_ex isfinite (map (\<lambda>r. vals r f) (take (nat k) rs))) \<longrightarrow>
           length out = nat k \<and> (\<forall>i < nat k. \<exists>v. out ! i = (rs ! i)\<lparr>vals := v\<rparr>))) \<and>
     (k = -1 \<longrightarrow>
        drop_gap s k df = df \<and>
        ((\<exists>f. \<not> list_ex isfinite (map (\<lambda>r. vals r f) rs)) \<longrightarrow> out = []) \<and>
        ((\<forall>f. list_ex isfinite (map (\<lambda>r. vals r f) rs)) \<longrightarrow>
           length out = length rs \<and> (\<forall>i < length rs. \<exists>v. out ! i = (rs ! i)\<lparr>vals := v\<rparr>)))"
proof -
  have d: "distinct (map fst df)" unfolding assms(7) by (rule distinct_read_csv)
  have sub: "map snd (stay_frame s df) = rs" unfolding assms(1,7) by (rule stay_frame_read_csv)
  have col: "column Creatinine (stay_frame s df) = cs"
    unfolding assms(2) by (simp add: column_map_snd sub)
  have lsub: "length (stay_frame s df) = length rs" using sub by (metis length_map)
  have lcs: "length cs = length rs" unfolding assms(2) by simp
  note m = impute_holes_stay [of s rows, unfolded Let_def, folded assms(1), folded assms(2),
      folded assms(5), folded assms(6)]
  have c1: "k = -1 \<longleftrightarrow> (\<forall>j. 2 \<le> j \<and> j < length rs \<longrightarrow> isfinite (cs ! j))"
    unfolding assms(5) get_nan_index_none lcs ..
  have c2: "k \<noteq> -1 \<longrightarrow> 2 \<le> k \<and> nat k < length rs \<and> \<not> isfinite (cs ! nat k) \<and>
                (\<forall>j. 2 \<le> j \<and> j < nat k \<longrightarrow> isfinite (cs ! j))"
    using get_nan_index_some [of cs] unfolding assms(5) lcs by blast
  have c3: "k = 2 \<longrightarrow> impute_stay s df = drop_stay s df \<and> out = []"
    using assms(3,4) m by (simp add: impute_stay_def Let_def col lsub assms(5))
  have c4: "k \<noteq> 2 \<longrightarrow> impute_stay s df = fill_nas_or_drop (drop_gap s k df) s features"
    using assms(3,4) by (simp add: impute_stay_def Let_def col lsub assms(5))
  have g: "stay_frame s (drop_gap s k df) = (if k \<noteq> -1 then take (nat k) (stay_frame s df) else stay_frame s df)"
    unfolding stay_frame_drop_gap_same
    by (rule drop_gap_single [OF stay_frame_distinct [OF d]]) (simp add: stay_frame_set)
  have c5: "2 < k \<longrightarrow>
        stay_frame s (drop_gap s k df) = take (nat k) (stay_frame s df) \<and>
        (\<forall>s'. s' \<noteq> s \<longrightarrow> stay_frame s' (drop_gap s k df) = stay_frame s' df) \<and>
        ((\<exists>f. \<not> list_ex isfinite (map (\<lambda>r. vals r f) (take (nat k) rs))) \<longrightarrow> out = []) \<and>
        ((\<forall>f. list_ex isfinite (map (\<lambda>r. vals r f) (take (nat k) rs))) \<longrightarrow>
           length out = nat k \<and> (\<forall>i < nat k. \<exists>v. out ! i = (rs ! i)\<lparr>vals := v\<rparr>))"
  proof
    assume k: "2 < k"
    then have kl: "nat k < length rs" using c2 by simp
    have mk: "min (length rs) (nat k) = nat k" using kl by simp
    have o: "out = (if list_ex (\<lambda>f. \<not> list_ex isfinite (map (\<lambda>r. vals r f) (take (nat k) rs))) features then []
          else map (\<lambda>(i, r). r\<lparr>vals := (\<lambda>f. bfill (ffill (map (\<lambda>r. vals r f) (take (nat k) rs))) ! i)\<rparr>)
                 (zip [0..<length (take (nat k) rs)] (take (nat k) rs)))"
      using m assms(3,4) k by simp
    have "(\<forall>f. list_ex isfinite (map (\<lambda>r. vals r f) (take (nat k) rs))) \<longrightarrow>
           length out = nat k \<and> (\<forall>i < nat k. \<exists>v. out ! i = (rs ! i)\<lparr>vals := v\<rparr>)"
    proof
      assume a: "\<forall>f. list_ex isfinite (map (\<lambda>r. vals r f) (take (nat k) rs))"
      then have o': "out = map (\<lambda>(i, r). r\<lparr>vals := (\<lambda>f. bfill (ffill (map (\<lambda>r. vals r f) (take (nat k) rs))) ! i)\<rparr>)
                 (zip [0..<length (take (nat k) rs)] (take (nat k) rs))"
        using o by (simp add: list_ex_features)
      have "length out = nat k" unfolding o' by (simp add: mk)
      moreover have "\<forall>i < nat k. \<exists>v. out ! i = (rs ! i)\<lparr>vals := v\<rparr>"
      proof (intro allI impI)
        fix i assume i: "i < nat k"
        then have "i < length (take (nat k) rs)" by (simp add: mk)
        from filled_rows_nth [OF o' this] show "\<exists>v. out ! i = (rs ! i)\<lparr>vals := v\<rparr>"
          using i by auto
      qed
      ultimately show "length out = nat k \<and> (\<forall>i < nat k. \<exists>v. out ! i = (rs ! i)\<lparr>vals := v\<rparr>)" ..
    qed
    moreover have "(\<exists>f. \<not> list_ex isfinite (map (\<lambda>r. vals r f) (take (nat k) rs))) \<longrightarrow> out = []"
      using o by (simp add: list_ex_features)
    moreover have "stay_frame s (drop_gap s k df) = take (nat k) (stay_frame s df)"
      using g k by simp
    moreover have "\<forall>s'. s' \<noteq> s \<longrightarrow> stay_frame s' (drop_gap s k df) = stay_frame s' df"
      using stay_frame_drop_gap_other [OF d] by blast
    ultimately show "stay_frame s (drop_gap s k df) = take (nat k) (stay_frame s df) \<and>
        (\<forall>s'. s' \<noteq> s \<longrightarrow> stay_frame s' (drop_gap s k df) = stay_frame s' df) \<and>
        ((\<exists>f. \<not> list_ex isfinite (map (\<lambda>r. vals r f) (take (nat k) rs))) \<longrightarrow> out = []) \<and>
        ((\<forall>f. list_ex isfinite (map (\<lambda>r. vals r f) (take (nat k) rs))) \<longrightarrow>
           length out = nat k \<and> (\<forall>i < nat k. \<exists>v. out ! i = (rs ! i)\<lparr>vals := v\<rparr>))"
      by blast
  qed
  have c6: "k = -1 \<longrightarrow>
        drop_gap s k df = df \<and>
        ((\<exists>f. \<not> list_ex isfinite (map (\<lambda>r. vals r f) rs)) \<longrightarrow> out = []) \<and>
        ((\<forall>f. list_ex isfinite (map (\<lambda>r. vals r f) rs)) \<longrightarrow>
           length out = length rs \<and> (\<forall>i < length rs. \<exists>v. out ! i = (rs ! i)\<lparr>vals := v\<rparr>))"
  proof
    assume k: "k = -1"
    have o: "out = (if list_ex (\<lambda>f. \<not> list_ex isfinite (map (\<lambda>r. vals r f) rs)) features then []
          else map (\<lambda>(i, r). r\<lparr>vals := (\<lambda>f. bfill (ffill (map (\<lambda>r. vals r f) rs)) ! i)\<rparr>)
                 (zip [0..<length rs] rs))"
      using m assms(3,4) k by simp
    have "(\<forall>f. list_ex isfinite (map (\<lambda>r. vals r f) rs)) \<longrightarrow>
           length out = length rs \<and> (\<forall>i < length rs. \<exists>v. out ! i = (rs ! i)\<lparr>vals := v\<rparr>)"
    proof
      assume a: "\<forall>f. list_ex isfinite (map (\<lambda>r. vals r f) rs)"
      then have o': "out = map (\<lambda>(i, r). r\<lparr>vals := (\<lambda>f. bfill (ffill (map (\<lambda>r. vals r f) rs)) ! i)\<rparr>)
                 (zip [0..<length rs] rs)"
        using o by (simp add: list_ex_features)
      have "length out = length rs" unfolding o' by simp
      moreover have "\<forall>i < length rs. \<exists>v. out ! i = (rs ! i)\<lparr>vals := v\<rparr>"
        using filled_rows_nth [OF o'] by blast
      ultimately show "length out = length rs \<and> (\<forall>i < length rs. \<exists>v. out ! i = (rs ! i)\<lparr>vals := v\<rparr>)" ..
    qed
    moreover have "(\<exists>f. \<not> list_ex isfinite (map (\<lambda>r. vals r f) rs)) \<longrightarrow> out = []"
      using o by (simp add: list_ex_features)
    moreover have "drop_gap s k df = df" using k by (simp add: drop_gap_def)
    ultimately show "drop_gap s k df = df \<and>
        ((\<exists>f. \<not> list_ex isfinite (map (\<lambda>r. vals r f) rs)) \<longrightarrow> out = []) \<and>
        ((\<forall>f. list_ex isfinite (map (\<lambda>r. vals r f) rs)) \<longrightarrow>
           length out = length rs \<and> (\<forall>i < length rs. \<exists>v. out ! i = (rs ! i)\<lparr>vals := v\<rparr>))"
      by blast
  qed
  show ?thesis using c1 c2 c3 c4 c5 c6 by blast
qed

text \<open>
  Claim C6, as stated, fails on its example: a stay whose glucose is
  NaN, 5, NaN, 7, NaN does not leave the imputer with 5, 5, 7, 7, 7.  The forward fill
  runs first, so the gap at index 2 takes the earlier value 5.
\<close>

theorem fill_glucose_example_refuted:
  "map (\<lambda>r. vals r Glucose) (impute_holes glucose_stay) \<noteq> [Num 5, Num 5, Num 7, Num 7, Num 7]"
  by (simp add: impute_holes_def glucose_stay_def day_row_def read_csv_def to_csv_def stay_ids_of_def
     impute_stay_def stay_frame_def drop_stay_def column_def get_nan_index_def drop_gap_def
     fill_nas_or_drop_def features_list_ex_simp loc_assign_def loc_assign_row_def fill_frame_def ffill_def upt_rec)

text \<open>
  Claim C6, amended.  Take a stay that passes the structural checks, and its rows after
  the truncation at the first creatinine gap.  If some feature has no number in these
  rows the stay is dropped.  Otherwise the stay keeps these rows, and every cell is
  filled from the stay's own rows alone: key columns are unchanged, each feature column
  is the forward fill followed by the backward fill of the stay's column, every cell of
  the result is a number, a cell with a number at or before it takes the nearest such
  number, and a cell with none takes the first number after it.  On the example, glucose
  NaN, 5, NaN, 7, NaN becomes 5, 5, 5, 7, 7.
\<close>

theorem impute_holes_fill:
  assumes "rs = stay_rows s rows" "cs = map (\<lambda>r. vals r Creatinine) rs"
    "3 \<le> length rs" "list_ex isfinite (drop 2 cs)"
    "k = get_nan_index cs" "k \<noteq> 2"
    "rs' = (if k \<noteq> -1 then take (nat k) rs else rs)"
    "out = stay_rows s (impute_holes rows)"
  shows
    "((\<exists>f. \<not> list_ex isfinite (map (\<lambda>r. vals r f) rs')) \<longrightarrow> out = []) \<and>
     ((\<forall>f. list_ex isfinite (map (\<lambda>r. vals r f) rs')) \<longrightarrow>
        length out = length rs' \<and>
        (\<forall>i < length rs'. \<forall>f.
           out ! i = (rs' ! i)\<lparr>vals := (\<lambda>f. bfill (ffill (map (\<lambda>r. vals r f) rs')) ! i)\<rparr> \<and>
           isfinite (vals (out ! i) f) \<and>
           (\<forall>j. j \<le> i \<and> isfinite (vals (rs' ! j) f) \<and>
                (\<forall>m. j < m \<and> m \<le> i \<longrightarrow> \<not> isfinite (vals (rs' ! m) f))
                \<longrightarrow> vals (out ! i) f = vals (rs' ! j) f) \<and>
           (\<forall>j. i < j \<and> j < length rs' \<and> isfinite (vals (rs' ! j) f) \<and>
                (\<forall>m < j. \<not> isfinite (vals (rs' ! m) f))
                \<longrightarrow> vals (out ! i) f = vals (rs' ! j) f))) \<and>
     map (\<lambda>r. vals r Glucose) (impute_holes glucose_stay) = [Num 5, Num 5, Num 5, Num 7, Num 7]"
proof -
  note m = impute_holes_stay [of s rows, unfolded Let_def, folded assms(1), folded assms(2),
      folded assms(5), folded assms(7), folded assms(8)]
  have o: "out = (if list_ex (\<lambda>f. \<not> list_ex isfinite (map (\<lambda>r. vals r f) rs')) features then []
          else map (\<lambda>(i, r). r\<lparr>vals := (\<lambda>f. bfill (ffill (map (\<lambda>r. vals r f) rs')) ! i)\<rparr>)
                 (zip [0..<length rs'] rs'))"
    using m assms(3,4,6) by simp
  have a: "(\<exists>f. \<not> list_ex isfinite (map (\<lambda>r. vals r f) rs')) \<longrightarrow> out = []"
    using o by (simp add: list_ex_features)
  have b: "(\<forall>f. list_ex isfinite (map (\<lambda>r. vals r f) rs')) \<longrightarrow>
        length out = length rs' \<and>
        (\<forall>i < length rs'. \<forall>f.
           out ! i = (rs' ! i)\<lparr>vals := (\<lambda>f. bfill (ffill (map (\<lambda>r. vals r f) rs')) ! i)\<rparr> \<and>
           isfinite (vals (out ! i) f) \<and>
           (\<forall>j. j \<le> i \<and> isfinite (vals (rs' ! j) f) \<and>
                (\<forall>m. j < m \<and> m \<le> i \<longrightarrow> \<not> isfinite (vals (rs' ! m) f))
                \<longrightarrow> vals (out ! i) f = vals (rs' ! j) f) \<and>
           (\<forall>j. i < j \<and> j < length rs' \<and> isfinite (vals (rs' ! j) f) \<and>
                (\<forall>m < j. \<not> isfinite (vals (rs' ! m) f))
                \<longrightarrow> vals (out ! i) f = vals (rs' ! j) f))"
  proof
    assume all: "\<forall>f. list_ex isfinite (map (\<lambda>r. vals r f) rs')"
    then have o': "out = map (\<lambda>(i, r). r\<lparr>vals := (\<lambda>f. bfill (ffill (map (\<lambda>r. vals r f) rs')) ! i)\<rparr>)
                 (zip [0..<length rs'] rs')"
      using o by (simp add: list_ex_features)
    have len: "length out = length rs'" unfolding o' by simp
    have "\<forall>i < length rs'. \<forall>f.
           out ! i = (rs' ! i)\<lparr>vals := (\<lambda>f. bfill (ffill (map (\<lambda>r. vals r f) rs')) ! i)\<rparr> \<and>
           isfinite (vals (out ! i) f) \<and>
           (\<forall>j. j \<le> i \<and> isfinite (vals (rs' ! j) f) \<and>
                (\<forall>m. j < m \<and> m \<le> i \<longrightarrow> \<not> isfinite (vals (rs' ! m) f))
                \<longrightarrow> vals (out ! i) f = vals (rs' ! j) f) \<and>
           (\<forall>j. i < j \<and> j < length rs' \<and> isfinite (vals (rs' ! j) f) \<and>
                (\<forall>m < j. \<not> isfinite (vals (rs' ! m) f))
                \<longrightarrow> vals (out ! i) f = vals (rs' ! j) f)"
    proof (intro allI impI)
      fix i f assume i: "i < length rs'"
      let ?c = "map (\<lambda>r. vals r f) rs'"
      have row: "out ! i = (rs' ! i)\<lparr>vals := (\<lambda>f. bfill (ffill (map (\<lambda>r. vals r f) rs')) ! i)\<rparr>"
        by (rule filled_rows_nth [OF o' i])
      then have cell: "vals (out ! i) f = bfill (ffill ?c) ! i" by simp
      have ic: "i < length ?c" using i by simp
      have fin: "isfinite (vals (out ! i) f)"
        unfolding cell using all ic by (intro fill_all_finite) auto
      have early: "\<forall>j. j \<le> i \<and> isfinite (vals (rs' ! j) f) \<and>
                (\<forall>m. j < m \<and> m \<le> i \<longrightarrow> \<not> isfinite (vals (rs' ! m) f))
                \<longrightarrow> vals (out ! i) f = vals (rs' ! j) f"
      proof (intro allI impI)
        fix j assume j: "j \<le> i \<and> isfinite (vals (rs' ! j) f) \<and>
                (\<forall>m. j < m \<and> m \<le> i \<longrightarrow> \<not> isfinite (vals (rs' ! m) f))"
        have "bfill (ffill ?c) ! i = ?c ! j"
          using ic j i by (intro fill_earlier) auto
        then show "vals (out ! i) f = vals (rs' ! j) f" using cell j i by simp
      qed
      have late: "\<forall>j. i < j \<and> j < length rs' \<and> isfinite (vals (rs' ! j) f) \<and>
                (\<forall>m < j. \<not> isfinite (vals (rs' ! m) f))
                \<longrightarrow> vals (out ! i) f = vals (rs' ! j) f"
      proof (intro allI impI)
        fix j assume j: "i < j \<and> j < length rs' \<and> isfinite (vals (rs' ! j) f) \<and>
                (\<forall>m < j. \<not> isfinite (vals (rs' ! m) f))"
        have "bfill (ffill ?c) ! i = ?c ! j"
          using j by (intro fill_later) auto
        then show "vals (out ! i) f = vals (rs' ! j) f" using cell j by simp
      qed
      show "out ! i = (rs' ! i)\<lparr>vals := (\<lambda>f. bfill (ffill (map (\<lambda>r. vals r f) rs')) ! i)\<rparr> \<and>
           isfinite (vals (out ! i) f) \<and>
           (\<forall>j. j \<le> i \<and> isfinite (vals (rs' ! j) f) \<and>
                (\<forall>m. j < m \<and> m \<le> i \<longrightarrow> \<not> isfinite (vals (rs' ! m) f))
                \<longrightarrow> vals (out ! i) f = vals (rs' ! j) f) \<and>
           (\<forall>j. i < j \<and> j < length rs' \<and> isfinite (vals (rs' ! j) f) \<and>
                (\<forall>m < j. \<not> isfinite (vals (rs' ! m) f))
                \<longrightarrow> vals (out ! i) f = vals (rs' ! j) f)"
        using row fin early late by blast
    qed
    with len show "length out = length rs' \<and>
        (\<forall>i < length rs'. \<forall>f.
           out ! i = (rs' ! i)\<lparr>vals := (\<lambda>f. bfill (ffill (map (\<lambda>r. vals r f) rs')) ! i)\<rparr> \<and>
           isfinite (vals (out ! i) f) \<and>
           (\<forall>j. j \<le> i \<and> isfinite (vals (rs' ! j) f) \<and>
                (\<forall>m. j < m \<and> m \<le> i \<longrightarrow> \<not> isfinite (vals (rs' ! m) f))
                \<longrightarrow> vals (out ! i) f = vals (rs' ! j) f) \<and>
           (\<forall>j. i < j \<and> j < length rs' \<and> isfinite (vals (rs' ! j) f) \<and>
                (\<forall>m < j. \<not> isfinite (vals (rs' ! m) f))
                \<longrightarrow> vals (out ! i) f = vals (rs' ! j) f))" ..
  qed
  have c: "map (\<lambda>r. vals r Glucose) (impute_holes glucose_stay) = [Num 5, Num 5, Num 5, Num 7, Num 7]"
    by (simp add: impute_holes_def glucose_stay_def day_row_def read_csv_def to_csv_def stay_ids_of_def
     impute_stay_def stay_frame_def drop_stay_def column_def get_nan_index_def drop_gap_def
     fill_nas_or_drop_def features_list_ex_simp loc_assign_def loc_assign_row_def fill_frame_def ffill_def upt_rec)
  show ?thesis using a b c by blast
qed

theorem impute_holes_fill_witness:
  "length (stay_rows 1 (impute_holes glucose_stay)) = 5 \<and>
   vals (stay_rows 1 (impute_holes glucose_stay) ! 2) Glucose = Num 5 \<and>
   vals (stay_rows 1 (impute_holes glucose_stay) ! 0) Glucose = Num 5"
proof -
  let ?rs = "stay_rows 1 glucose_stay"
  let ?cs = "map (\<lambda>r. vals r Creatinine) ?rs"
  have rs: "?rs = glucose_stay" by (simp add: stay_rows_def glucose_stay_def day_row_def)
  have h3: "3 \<le> length ?rs" by (simp add: rs) (simp add: glucose_stay_def)
  have h4: "list_ex isfinite (drop 2 ?cs)" by (simp add: rs) (simp add: glucose_stay_def day_row_def)
  have k: "get_nan_index ?cs = -1"
    by (simp add: rs) (simp add: glucose_stay_def day_row_def get_nan_index_def)
  then have h6: "get_nan_index ?cs \<noteq> 2" by simp
  have h7: "?rs = (if get_nan_index ?cs \<noteq> -1 then take (nat (get_nan_index ?cs)) ?rs else ?rs)"
    using k by simp
  have all: "\<forall>f. list_ex isfinite (map (\<lambda>r. vals r f) ?rs)"
    by (simp add: rs) (simp add: glucose_stay_def day_row_def)
  have g1: "isfinite (vals (?rs ! 1) Glucose)" "vals (?rs ! 1) Glucose = Num 5"
    "\<not> isfinite (vals (?rs ! 2) Glucose)" "\<not> isfinite (vals (?rs ! 0) Glucose)"
    "length ?rs = 5"
    by (simp_all add: rs) (simp_all add: glucose_stay_def day_row_def)
  note t = impute_holes_fill [OF refl refl h3 h4 refl h6 h7 refl]
  from t all have len: "length (stay_rows 1 (impute_holes glucose_stay)) = 5"
    using g1(5) by simp
  from t all have per: "\<And>i f. i < length ?rs \<Longrightarrow>
      (\<forall>j. j \<le> i \<and> isfinite (vals (?rs ! j) f) \<and>
                (\<forall>m. j < m \<and> m \<le> i \<longrightarrow> \<not> isfinite (vals (?rs ! m) f))
                \<longrightarrow> vals (stay_rows 1 (impute_holes glucose_stay) ! i) f = vals (?rs ! j) f) \<and>
      (\<forall>j. i < j \<and> j < length ?rs \<and> isfinite (vals (?rs ! j) f) \<and>
                (\<forall>m < j. \<not> isfinite (vals (?rs ! m) f))
                \<longrightarrow> vals (stay_rows 1 (impute_holes glucose_stay) ! i) f = vals (?rs ! j) f)"
    by blast
  have "2 < length ?rs" using g1(5) by simp
  from per [OF this, of Glucose] have
    "1 \<le> (2::nat) \<and> isfinite (vals (?rs ! 1) Glucose) \<and>
       (\<forall>m. 1 < m \<and> m \<le> 2 \<longrightarrow> \<not> isfinite (vals (?rs ! m) Glucose))
     \<longrightarrow> vals (stay_rows 1 (impute_holes glucose_stay) ! 2) Glucose = vals (?rs ! 1) Glucose"
    by blast
  moreover have "\<forall>m. 1 < m \<and> m \<le> 2 \<longrightarrow> \<not> isfinite (vals (?rs ! m) Glucose)"
  proof (intro allI impI)
    fix m :: nat assume "1 < m \<and> m \<le> 2"
    then have "m = 2" by arith
    then show "\<not> isfinite (vals (?rs ! m) Glucose)" using g1(3) by simp
  qed
  ultimately have v2: "vals (stay_rows 1 (impute_holes glucose_stay) ! 2) Glucose = Num 5"
    using g1(1,2) by simp
  have "0 < length ?rs" using g1(5) by simp
  from per [OF this, of Glucose] have
    "0 < (1::nat) \<and> 1 < length ?rs \<and> isfinite (vals (?rs ! 1) Glucose) \<and>
       (\<forall>m < 1. \<not> isfinite (vals (?rs ! m) Glucose))
     \<longrightarrow> vals (stay_rows 1 (impute_holes glucose_stay) ! 0) Glucose = vals (?rs ! 1) Glucose"
    by blast
  then have v0: "vals (stay_rows 1 (impute_holes glucose_stay) ! 0) Glucose = Num 5"
    using g1 by auto
  show ?thesis using len v2 v0 by simp
qed

theorem impute_holes_first_gap_witness:
  "length (stay_rows 4 (impute_holes gap_table)) = 4 \<and> stay_rows 5 (impute_holes gap_table) = []"
proof -
  let ?r4 = "stay_rows 4 gap_table"
  let ?c4 = "map (\<lambda>r. vals r Creatinine) ?r4"
  let ?r5 = "stay_rows 5 gap_table"
  let ?c5 = "map (\<lambda>r. vals r Creatinine) ?r5"
  have a3: "3 \<le> length ?r4" by (simp add: stay_rows_def gap_table_def day_row_def)
  have a4: "list_ex isfinite (drop 2 ?c4)" by (simp add: stay_rows_def gap_table_def day_row_def)
  have ak: "get_nan_index ?c4 = 4"
    by (simp add: stay_rows_def gap_table_def day_row_def get_nan_index_def)
  have af: "\<forall>f. list_ex isfinite (map (\<lambda>r. vals r f) (take (nat 4) ?r4))"
    by (simp add: stay_rows_def gap_table_def day_row_def)
  have b3: "3 \<le> length ?r5" by (simp add: stay_rows_def gap_table_def day_row_def)
  have b4: "list_ex isfinite (drop 2 ?c5)" by (simp add: stay_rows_def gap_table_def day_row_def)
  have bk: "get_nan_index ?c5 = 2"
    by (simp add: stay_rows_def gap_table_def day_row_def get_nan_index_def)
  from impute_holes_first_gap [OF refl refl a3 a4 refl refl refl] ak af
  have "length (stay_rows 4 (impute_holes gap_table)) = 4" by simp
  moreover from impute_holes_first_gap [OF refl refl b3 b4 refl refl refl] bk
  have "stay_rows 5 (impute_holes gap_table) = []" by simp
  ultimately show ?thesis ..
qed

section \<open>Properties of the AKI labeler\<close>

lemma has_aki_diff: "has_aki (Some x) None None None None = Inr (cell_ge x (Num (fl64 0.3)))"
  by (simp add: has_aki_def)

lemma has_aki_scr:
  "has_aki None (Some x) (Some b) (Some a) (Some g) = Inr (cell_ge x (Num (fl64 (fl64 1.5 * fl64 (get_baseline b a g)))))"
  by (simp add: has_aki_def)

lemma apply_err_total: "apply_err (\<lambda>x. Inr (g x)) xs = Inr (map g xs)"
  by (induction xs) auto

lemma or_else_Inr: "or_else (Inr a) (or_else (Inr b) (Inr c)) = Inr (a \<or> b \<or> c)"
  by (cases a; cases b; simp)

lemma drop_labels_other:
  assumes "distinct (map fst df)" "set ls \<subseteq> fst ` set (stay_frame s df)" "s' \<noteq> s"
  shows "stay_frame s' (drop_labels ls df) = stay_frame s' df"
proof -
  have "set ls \<inter> fst ` set (stay_frame s' df) = {}"
    using labels_other_stay [OF assms(1,3)] assms(2) by blast
  then show ?thesis by (simp add: stay_frame_drop_labels drop_labels_none)
qed

lemma drop_labels_last:
  assumes "distinct (map fst sub)" "sub \<noteq> []"
  shows "drop_labels [fst (last sub)] sub = butlast sub"
proof -
  have "map fst sub = map fst (butlast sub) @ [fst (last sub)]"
    using assms(2) by (metis append_butlast_last_id list.simps(8) list.simps(9) map_append)
  then have "drop (length (map fst (butlast sub))) (map fst sub) = [fst (last sub)]"
    by (metis append_eq_conv_conj)
  then have "drop (length sub - 1) (map fst sub) = [fst (last sub)]"
    by simp
  then show ?thesis
    using drop_labels_take [OF assms(1), of "length sub - 1"] by (simp add: butlast_conv_take)
qed

lemma assign_aki_fst: "map fst (assign_aki s vs df) = map fst df"
  by (induction s vs df rule: assign_aki.induct) (auto split: list.splits)

lemma stay_frame_assign_aki_other:
  "s' \<noteq> s \<Longrightarrow> stay_frame s' (assign_aki s vs df) = stay_frame s' df"
  by (induction s vs df rule: assign_aki.induct) (auto simp: stay_frame_def split: list.splits)

lemma stay_frame_assign_aki_same:
  "stay_frame s (assign_aki s vs df) = assign_aki s vs (stay_frame s df)"
  by (induction s vs df rule: assign_aki.induct) (auto simp: stay_frame_def split: list.splits)

lemma assign_aki_single:
  assumes "\<And>l r. (l, r) \<in> set sub \<Longrightarrow> stay_id r = s" "length vs = length sub"
  shows "assign_aki s vs sub = map (\<lambda>((l, r), v). (l, r\<lparr>aki := Num (of_int v)\<rparr>)) (zip sub vs)"
  using assms
proof (induction s vs sub rule: assign_aki.induct)
  case (1 sid vs)
  then show ?case by simp
next
  case (2 sid vs l r df)
  then show ?case by (cases vs) auto
qed

lemma diffs_shape:
  "map (\<lambda>(x, y). cell_sub x y) (zip (tl (c0 # c1 # cs)) (butlast (c0 # c1 # cs))) =
   cell_sub c1 c0 # map (\<lambda>i. cell_sub (cs ! i) ((c1 # cs) ! i)) [0..<length cs]"
proof -
  have "map (\<lambda>(x, y). cell_sub x y) (zip cs (butlast (c1 # cs))) =
        map (\<lambda>i. cell_sub (cs ! i) ((c1 # cs) ! i)) [0..<length cs]"
    by (rule nth_equalityI) (auto simp: nth_butlast nth_Cons split: nat.splits)
  then show ?thesis by simp
qed

lemma akis_shape:
  "map (\<lambda>(a, b). if a \<or> b then 1 else 0)
     (zip (map g (map h [0..<length cs])) (map k cs)) =
   map (\<lambda>i. if g (h i) \<or> k (cs ! i) then (1::int) else 0) [0..<length cs]"
  by (rule nth_equalityI) auto

lemma add_aki_stay_young:
  assumes "stay_frame s df = (l0, r0) # rest" "age r0 < 20"
  shows "add_aki_stay s df = Inr (drop_stay s df)"
  using assms by (simp add: add_aki_stay_def)

lemma add_aki_stay_short:
  assumes "stay_frame s df = [(l0, r0)]" "\<not> age r0 < 20"
  shows "add_aki_stay s df = Inl IndexError"
  using assms by (simp add: add_aki_stay_def column_def)

lemma column_two:
  assumes "stay_frame s df = (l0, r0) # (l1, r1) # rest"
  shows "column Creatinine (stay_frame s df) =
         vals r0 Creatinine # vals r1 Creatinine # column Creatinine rest"
  using assms by (simp add: column_def)

lemma add_aki_stay_pre:
  assumes "stay_frame s df = (l0, r0) # (l1, r1) # rest" "\<not> age r0 < 20"
    "cell_ge (cell_sub (vals r1 Creatinine) (vals r0 Creatinine)) (Num (fl64 0.3)) \<or>
     cell_ge (vals r0 Creatinine) (Num (fl64 (fl64 1.5 * fl64 (get_baseline (black r0) (age r0) (gender r0))))) \<or>
     cell_ge (vals r1 Creatinine) (Num (fl64 (fl64 1.5 * fl64 (get_baseline (black r0) (age r0) (gender r0)))))"
  shows "add_aki_stay s df = Inr (drop_stay s df)"
  unfolding add_aki_stay_def Let_def column_two [OF assms(1)] diffs_shape
  using assms by (simp add: has_aki_diff has_aki_scr or_else_Inr)

lemma truncate_always:
  "(if 0 < length ls then Inr (drop_labels ls d) else Inr d) = (Inr (drop_labels ls d) :: error + 'r frame)"
  by (cases ls) (auto simp: drop_labels_def)

lemma add_aki_stay_gen:
  fixes df :: "lrow frame"
  assumes sub: "stay_frame s df = sub"
    and cons: "sub = (l0, r0) # rest"
    and old: "\<not> age r0 < 20"
    and scr: "column Creatinine sub = scr"
    and diffs: "map (\<lambda>(x, y). cell_sub x y) (zip (tl scr) (butlast scr)) = d0 # ds"
    and pre: "(cell_ge d0 (Num (fl64 0.3)) \<or>
               cell_ge (scr ! 0) (Num (fl64 (fl64 1.5 * fl64 (get_baseline (black r0) (age r0) (gender r0))))) \<or>
               cell_ge (scr ! 1) (Num (fl64 (fl64 1.5 * fl64 (get_baseline (black r0) (age r0) (gender r0)))))) = False"
    and sub1: "stay_frame s (drop_labels [fst (last sub)] df) = sub1"
    and len: "length sub1 =
        length ((0::int) # map (\<lambda>(a, b). if a \<or> b then 1 else 0)
           (zip (map (\<lambda>x. cell_ge x (Num (fl64 0.3))) ds)
                (map (\<lambda>x. cell_ge x (Num (fl64 (fl64 1.5 * fl64 (get_baseline (black r0) (age r0) (gender r0))))))
                   (drop 2 scr))))"
  shows "add_aki_stay s df =
     Inr (drop_labels
            (drop 8 (map fst (stay_frame s
               (assign_aki s
                  (0 # map (\<lambda>(a, b). if a \<or> b then 1 else 0)
                     (zip (map (\<lambda>x. cell_ge x (Num (fl64 0.3))) ds)
                          (map (\<lambda>x. cell_ge x (Num (fl64 (fl64 1.5 * fl64 (get_baseline (black r0) (age r0) (gender r0))))))
                             (drop 2 scr))))
                  (drop_labels [fst (last sub)] df)))))
            (assign_aki s
               (0 # map (\<lambda>(a, b). if a \<or> b then 1 else 0)
                  (zip (map (\<lambda>x. cell_ge x (Num (fl64 0.3))) ds)
                       (map (\<lambda>x. cell_ge x (Num (fl64 (fl64 1.5 * fl64 (get_baseline (black r0) (age r0) (gender r0))))))
                          (drop 2 scr))))
               (drop_labels [fst (last sub)] df)))"
  unfolding add_aki_stay_def Let_def
  unfolding sub
  unfolding scr
  unfolding diffs sub1
  unfolding cons
  apply (simp only: list.case prod.case)
  apply (simp only: old if_False has_aki_diff has_aki_scr or_else_Inr pre
      sum.case bool.case apply_err_total len simp_thms truncate_always)
  done


lemma aki_flags_length: "length (aki_flags scr b) = length scr - 2"
  by (simp add: aki_flags_def)

lemma add_aki_stay_labelled:
  fixes df :: "lrow frame"
  assumes "stay_frame s df = (l0, r0) # (l1, r1) # rest" "\<not> age r0 < 20"
    "\<not> (cell_ge (cell_sub (vals r1 Creatinine) (vals r0 Creatinine)) (Num (fl64 0.3)) \<or>
     cell_ge (vals r0 Creatinine) (Num (fl64 (fl64 1.5 * fl64 (get_baseline (black r0) (age r0) (gender r0))))) \<or>
     cell_ge (vals r1 Creatinine) (Num (fl64 (fl64 1.5 * fl64 (get_baseline (black r0) (age r0) (gender r0))))))"
    "distinct (map fst df)"
  shows "\<exists>d. add_aki_stay s df = Inr d \<and> distinct (map fst d) \<and>
           (\<forall>s'. s' \<noteq> s \<longrightarrow> stay_frame s' d = stay_frame s' df) \<and>
           stay_frame s d =
             take 8 (map (\<lambda>((l, r), v). (l, r\<lparr>aki := Num (of_int v)\<rparr>))
                (zip (butlast (stay_frame s df))
                   (0 # aki_flags (column Creatinine (stay_frame s df))
                          (fl64 (fl64 1.5 * fl64 (get_baseline (black r0) (age r0) (gender r0)))))))"
proof -
  let ?sub = "stay_frame s df"
  let ?b = "fl64 (fl64 1.5 * fl64 (get_baseline (black r0) (age r0) (gender r0)))"
  let ?scr = "column Creatinine ?sub"
  let ?ds = "tl (map (\<lambda>(x, y). cell_sub x y) (zip (tl ?scr) (butlast ?scr)))"
  let ?akis = "aki_flags ?scr ?b"
  let ?df1 = "drop_labels [fst (last ?sub)] df"
  let ?df2 = "assign_aki s (0 # ?akis) ?df1"
  let ?d = "drop_labels (drop 8 (map fst (stay_frame s ?df2))) ?df2"
  have d: "distinct (map fst ?sub)" using assms(4) by (rule stay_frame_distinct)
  have ne: "?sub \<noteq> []" using assms(1) by simp
  have sub1: "stay_frame s ?df1 = butlast ?sub"
    unfolding stay_frame_drop_labels by (rule drop_labels_last [OF d ne])
  have scr: "?scr = vals r0 Creatinine # vals r1 Creatinine # column Creatinine rest"
    by (rule column_two [OF assms(1)])
  have diffs: "map (\<lambda>(x, y). cell_sub x y) (zip (tl ?scr) (butlast ?scr)) =
      cell_sub (vals r1 Creatinine) (vals r0 Creatinine) # ?ds"
    unfolding scr by simp
  have pre: "(cell_ge (cell_sub (vals r1 Creatinine) (vals r0 Creatinine)) (Num (fl64 0.3)) \<or>
               cell_ge (?scr ! 0) (Num ?b) \<or> cell_ge (?scr ! 1) (Num ?b)) = False"
    using assms(3) unfolding scr by simp
  have len: "length (butlast ?sub) = length ((0::int) # ?akis)"
    by (simp add: aki_flags_length assms(1) column_def)
  have run: "add_aki_stay s df = Inr ?d"
    using add_aki_stay_gen [OF refl assms(1) assms(2) refl diffs pre sub1
        len [unfolded aki_flags_def]]
    unfolding aki_flags_def .
  have same2: "stay_frame s ?df2 = assign_aki s (0 # ?akis) (butlast ?sub)"
    unfolding stay_frame_assign_aki_same sub1 ..
  have alls: "\<And>l r. (l, r) \<in> set (butlast ?sub) \<Longrightarrow> stay_id r = s"
    by (metis in_set_butlastD stay_frame_set)
  have same2': "stay_frame s ?df2 =
      map (\<lambda>((l, r), v). (l, r\<lparr>aki := Num (of_int v)\<rparr>)) (zip (butlast ?sub) (0 # ?akis))"
    unfolding same2 by (rule assign_aki_single [OF alls len [symmetric]])
  have d1: "distinct (map fst ?df1)" using assms(4) by (rule drop_labels_distinct)
  have d2: "distinct (map fst ?df2)" using d1 by (simp add: assign_aki_fst)
  have dd: "distinct (map fst ?d)" using d2 by (rule drop_labels_distinct)
  have same: "stay_frame s ?d = take 8 (stay_frame s ?df2)"
    unfolding stay_frame_drop_labels
    by (rule drop_labels_take [OF stay_frame_distinct [OF d2]])
  have other: "\<forall>s'. s' \<noteq> s \<longrightarrow> stay_frame s' ?d = stay_frame s' df"
  proof (intro allI impI)
    fix s' assume ne': "s' \<noteq> s"
    have "stay_frame s' ?d = stay_frame s' ?df2"
      by (rule drop_labels_other [OF d2 _ ne']) (metis set_drop_subset set_map)
    also have "\<dots> = stay_frame s' ?df1" using ne' by (rule stay_frame_assign_aki_other)
    also have "\<dots> = stay_frame s' df"
    proof (rule drop_labels_other [OF assms(4) _ ne'])
      show "set [fst (last ?sub)] \<subseteq> fst ` set ?sub" using ne by simp
    qed
    finally show "stay_frame s' ?d = stay_frame s' df" .
  qed
  show ?thesis using run dd other same same2' by simp
qed

lemma stay_frame_add_aki:
  fixes df :: "lrow frame"
  assumes "distinct (map fst df)"
  shows "map_sum id (stay_frame s) (add_aki_stay s df) = stay_outcome (stay_frame s df)"
    and "add_aki_stay s df = Inr d \<Longrightarrow>
           distinct (map fst d) \<and> (\<forall>s'. s' \<noteq> s \<longrightarrow> stay_frame s' d = stay_frame s' df)"
proof -
  have "map_sum id (stay_frame s) (add_aki_stay s df) = stay_outcome (stay_frame s df) \<and>
        (\<forall>d. add_aki_stay s df = Inr d \<longrightarrow>
           distinct (map fst d) \<and> (\<forall>s'. s' \<noteq> s \<longrightarrow> stay_frame s' d = stay_frame s' df))"
  proof (cases "stay_frame s df")
    case Nil
    then show ?thesis by (simp add: add_aki_stay_def stay_outcome_def)
  next
    case (Cons a rest)
    obtain l0 r0 where a: "a = (l0, r0)" by (cases a)
    note sub = Cons [unfolded a]
    show ?thesis
    proof (cases "age r0 < 20")
      case True
      show ?thesis
        unfolding add_aki_stay_young [OF sub True]
        using True assms
        by (simp add: sub stay_outcome_def stay_frame_drop_stay drop_stay_distinct)
    next
      case False
      show ?thesis
      proof (cases rest)
        case Nil
        show ?thesis
          unfolding add_aki_stay_short [OF sub [unfolded Nil] False]
          using False by (simp add: sub Nil stay_outcome_def)
      next
        case (Cons a1 rest')
        obtain l1 r1 where a1: "a1 = (l1, r1)" by (cases a1)
        note sub2 = sub [unfolded Cons a1]
        show ?thesis
        proof (cases "cell_ge (cell_sub (vals r1 Creatinine) (vals r0 Creatinine)) (Num (fl64 0.3)) \<or>
             cell_ge (vals r0 Creatinine) (Num (fl64 (fl64 1.5 * fl64 (get_baseline (black r0) (age r0) (gender r0))))) \<or>
             cell_ge (vals r1 Creatinine) (Num (fl64 (fl64 1.5 * fl64 (get_baseline (black r0) (age r0) (gender r0)))))")
          case True
          show ?thesis
            unfolding add_aki_stay_pre [OF sub2 False True]
            using False True assms
            by (simp add: sub2 stay_outcome_def stay_frame_drop_stay drop_stay_distinct)
        next
          case np: False
          from add_aki_stay_labelled [OF sub2 False np assms]
          obtain d where d: "add_aki_stay s df = Inr d" "distinct (map fst d)"
            "\<forall>s'. s' \<noteq> s \<longrightarrow> stay_frame s' d = stay_frame s' df"
            "stay_frame s d =
             take 8 (map (\<lambda>((l, r), v). (l, r\<lparr>aki := Num (of_int v)\<rparr>))
                (zip (butlast (stay_frame s df))
                   (0 # aki_flags (column Creatinine (stay_frame s df))
                          (fl64 (fl64 1.5 * fl64 (get_baseline (black r0) (age r0) (gender r0)))))))"
            by blast
          have "stay_outcome (stay_frame s df) = Inr (stay_frame s d)"
            unfolding d(4) using False np
            by (simp add: sub2 stay_outcome_def del: butlast.simps)
          then show ?thesis using d by simp
        qed
      qed
    qed
  qed
  then show "map_sum id (stay_frame s) (add_aki_stay s df) = stay_outcome (stay_frame s df)"
    and "add_aki_stay s df = Inr d \<Longrightarrow>
           distinct (map fst d) \<and> (\<forall>s'. s' \<noteq> s \<longrightarrow> stay_frame s' d = stay_frame s' df)"
    by blast+
qed

lemma fold_err_add_aki:
  fixes df :: "lrow frame"
  assumes "distinct (map fst df)" "distinct ids" "fold_err add_aki_stay ids df = Inr df'"
  shows "distinct (map fst df') \<and>
         (\<forall>s \<in> set ids. stay_outcome (stay_frame s df) = Inr (stay_frame s df')) \<and>
         (\<forall>s. s \<notin> set ids \<longrightarrow> stay_frame s df' = stay_frame s df)"
  using assms
proof (induction ids arbitrary: df)
  case Nil
  then show ?case by simp
next
  case (Cons x xs)
  from Cons.prems(3) obtain d where d: "add_aki_stay x df = Inr d" "fold_err add_aki_stay xs d = Inr df'"
    by (auto split: sum.splits)
  have dd: "distinct (map fst d)"
    and other: "\<forall>s'. s' \<noteq> x \<longrightarrow> stay_frame s' d = stay_frame s' df"
    using stay_frame_add_aki(2) [OF Cons.prems(1) d(1)] by blast+
  have outx: "stay_outcome (stay_frame x df) = Inr (stay_frame x d)"
    using stay_frame_add_aki(1) [OF Cons.prems(1), of x] d(1) by simp
  have dx: "distinct xs" "x \<notin> set xs" using Cons.prems(2) by auto
  note IH = Cons.IH [OF dd dx(1) d(2)]
  have "stay_frame x df' = stay_frame x d" using IH dx(2) by blast
  then have a: "stay_outcome (stay_frame x df) = Inr (stay_frame x df')" using outx by simp
  have b: "\<forall>s \<in> set xs. stay_outcome (stay_frame s df) = Inr (stay_frame s df')"
  proof
    fix s assume s: "s \<in> set xs"
    then have "s \<noteq> x" using dx(2) by blast
    then have "stay_frame s d = stay_frame s df" using other by blast
    then show "stay_outcome (stay_frame s df) = Inr (stay_frame s df')" using IH s by auto
  qed
  have c: "\<forall>s. s \<notin> set (x # xs) \<longrightarrow> stay_frame s df' = stay_frame s df"
    using IH other by auto
  show ?case using IH a b c by simp
qed

lemma fold_err_add_aki_total:
  fixes df :: "lrow frame"
  assumes "distinct (map fst df)" "distinct ids"
    "\<forall>s \<in> set ids. \<exists>y. stay_outcome (stay_frame s df) = Inr y"
  shows "\<exists>df'. fold_err add_aki_stay ids df = Inr df'"
  using assms
proof (induction ids arbitrary: df)
  case Nil
  then show ?case by simp
next
  case (Cons x xs)
  from Cons.prems(3) obtain y where y: "stay_outcome (stay_frame x df) = Inr y" by auto
  then have "map_sum id (stay_frame x) (add_aki_stay x df) = Inr y"
    using stay_frame_add_aki(1) [OF Cons.prems(1), of x] by simp
  then obtain d where d: "add_aki_stay x df = Inr d" by (cases "add_aki_stay x df") auto
  have dd: "distinct (map fst d)"
    and other: "\<forall>s'. s' \<noteq> x \<longrightarrow> stay_frame s' d = stay_frame s' df"
    using stay_frame_add_aki(2) [OF Cons.prems(1) d] by blast+
  have dx: "distinct xs" "x \<notin> set xs" using Cons.prems(2) by auto
  have "\<forall>s \<in> set xs. \<exists>y. stay_outcome (stay_frame s d) = Inr y"
  proof
    fix s assume s: "s \<in> set xs"
    then have "s \<noteq> x" using dx(2) by blast
    then have "stay_frame s d = stay_frame s df" using other by blast
    then show "\<exists>y. stay_outcome (stay_frame s d) = Inr y" using Cons.prems(3) s by simp
  qed
  from Cons.IH [OF dd dx(1) this] show ?case using d by simp
qed

lemma with_aki_stay_id: "stay_id (with_aki r) = stay_id r"
  by (simp add: with_aki_def)

lemma stay_rows_with_aki: "stay_rows s (map with_aki rows) = map with_aki (stay_rows s rows)"
  by (induction rows) (auto simp: stay_rows_def with_aki_stay_id)

lemma parse_floats_keys:
  "stay_id (parse_floats r) = stay_id r" "age (parse_floats r) = age r"
  "black (parse_floats r) = black r" "gender (parse_floats r) = gender r"
  "vals (parse_floats r) f = parse_cell (vals r f)"
  by (simp_all add: parse_floats_def)

lemma stay_rows_parse_floats:
  "stay_rows s (map parse_floats rows) = map parse_floats (stay_rows s rows)"
  by (induction rows) (auto simp: stay_rows_def parse_floats_keys)

text \<open>The labeler as a whole, stay by stay.\<close>

lemma add_aki_labels_stay:
  assumes "add_aki_labels rows = Inr out" "rs = map parse_floats (stay_rows s rows)"
  shows "\<exists>sub sub'. map snd sub = map with_aki rs \<and>
           map snd sub' = stay_rows s out \<and>
           (rs \<noteq> [] \<longrightarrow> stay_outcome sub = Inr sub') \<and>
           (rs = [] \<longrightarrow> sub' = [])"
proof -
  let ?df = "read_csv (map with_aki (map parse_floats rows))"
  from assms(1) obtain df' where df': "fold_err add_aki_stay (stay_ids_of ?df) ?df = Inr df'"
    "out = to_csv df'"
    by (auto simp: add_aki_labels_def Let_def simp del: map_map split: sum.splits)
  have d: "distinct (map fst ?df)" by (rule distinct_read_csv)
  have di: "distinct (stay_ids_of ?df)" by (rule stay_ids_of_distinct)
  note f = fold_err_add_aki [OF d di df'(1)]
  have sub: "map snd (stay_frame s ?df) = map with_aki rs"
    unfolding assms(2)
    by (simp add: stay_frame_read_csv stay_rows_with_aki stay_rows_parse_floats del: map_map)
  have sub': "map snd (stay_frame s df') = stay_rows s out"
    unfolding df'(2) by (simp add: stay_rows_to_csv)
  have mem: "s \<in> set (stay_ids_of ?df) \<longleftrightarrow> rs \<noteq> []"
    unfolding stay_ids_of_set using sub by (metis map_is_Nil_conv)
  have a: "rs \<noteq> [] \<longrightarrow> stay_outcome (stay_frame s ?df) = Inr (stay_frame s df')"
    using f mem by blast
  have "rs = [] \<longrightarrow> stay_frame s df' = stay_frame s ?df"
    using f mem by blast
  then have b: "rs = [] \<longrightarrow> stay_frame s df' = []"
    using sub by (metis map_is_Nil_conv)
  show ?thesis using sub sub' a b by blast
qed

lemma add_aki_labels_total:
  assumes "\<forall>s. \<forall>sub :: lrow frame.
             map snd sub = map with_aki (map parse_floats (stay_rows s rows)) \<longrightarrow>
             stay_rows s rows \<noteq> [] \<longrightarrow> (\<exists>y. stay_outcome sub = Inr y)"
  shows "\<exists>out. add_aki_labels rows = Inr out"
proof -
  let ?df = "read_csv (map with_aki (map parse_floats rows))"
  have d: "distinct (map fst ?df)" by (rule distinct_read_csv)
  have di: "distinct (stay_ids_of ?df)" by (rule stay_ids_of_distinct)
  have "\<forall>s \<in> set (stay_ids_of ?df). \<exists>y. stay_outcome (stay_frame s ?df) = Inr y"
  proof
    fix s assume "s \<in> set (stay_ids_of ?df)"
    then have ne: "stay_frame s ?df \<noteq> []" by (simp add: stay_ids_of_set del: map_map)
    have sub: "map snd (stay_frame s ?df) = map with_aki (map parse_floats (stay_rows s rows))"
      by (simp add: stay_frame_read_csv stay_rows_with_aki stay_rows_parse_floats del: map_map)
    then have "stay_rows s rows \<noteq> []" using ne by (metis map_is_Nil_conv)
    then show "\<exists>y. stay_outcome (stay_frame s ?df) = Inr y" using assms sub by blast
  qed
  from fold_err_add_aki_total [OF d di this] obtain df' where
    "fold_err add_aki_stay (stay_ids_of ?df) ?df = Inr df'" by blast
  then have "add_aki_labels rows = Inr (to_csv df')"
    unfolding add_aki_labels_def Let_def by simp
  then show ?thesis by blast
qed

lemma aki_flags_nth:
  assumes "i + 2 < length scr"
  shows "aki_flags scr b ! i =
     (if cell_ge (cell_sub (scr ! (i + 2)) (scr ! (i + 1))) (Num (fl64 0.3)) \<or>
         cell_ge (scr ! (i + 2)) (Num b) then 1 else 0)"
proof -
  let ?diffs = "map (\<lambda>(x, y). cell_sub x y) (zip (tl scr) (butlast scr))"
  have ld: "length ?diffs = length scr - 1" by simp
  have i1: "Suc i < length ?diffs" using assms by simp
  have "tl ?diffs ! i = ?diffs ! Suc i" using i1 by (simp add: nth_tl)
  also have "\<dots> = cell_sub (tl scr ! Suc i) (butlast scr ! Suc i)" using i1 by simp
  also have "tl scr ! Suc i = scr ! (i + 2)" using assms by (simp add: nth_tl)
  also have "butlast scr ! Suc i = scr ! (i + 1)" using assms by (simp add: nth_butlast)
  finally have a: "tl ?diffs ! i = cell_sub (scr ! (i + 2)) (scr ! (i + 1))" .
  have b: "drop 2 scr ! i = scr ! (i + 2)" using assms by (simp add: add.commute)
  have l1: "i < length (tl ?diffs)" using assms by simp
  have l2: "i < length (drop 2 scr)" using assms by simp
  show ?thesis
    unfolding aki_flags_def using l1 l2 a b by simp
qed

lemma stay_outcome_long:
  assumes "map snd sub = map with_aki rs" "2 \<le> length rs"
    and "b = fl64 (fl64 1.5 * fl64 (get_baseline (black (rs ! 0)) (age (rs ! 0)) (gender (rs ! 0))))"
    and "gone = (age (rs ! 0) < 20 \<or>
           cell_ge (cell_sub (vals (rs ! 1) Creatinine) (vals (rs ! 0) Creatinine)) (Num (fl64 0.3)) \<or>
           cell_ge (vals (rs ! 0) Creatinine) (Num b) \<or>
           cell_ge (vals (rs ! 1) Creatinine) (Num b))"
  shows "\<exists>sub'. stay_outcome sub = Inr sub' \<and> (gone \<longrightarrow> sub' = []) \<and>
     (\<not> gone \<longrightarrow> length sub' = min 8 (length rs - 1) \<and>
        (\<forall>i < min 8 (length rs - 1).
           snd (sub' ! i) = (with_aki (rs ! i))\<lparr>aki :=
              Num (of_int (if i = 0 then 0
                           else if cell_ge (cell_sub (vals (rs ! (i + 1)) Creatinine)
                                              (vals (rs ! i) Creatinine)) (Num (fl64 0.3)) \<or>
                                   cell_ge (vals (rs ! (i + 1)) Creatinine) (Num b)
                                then 1 else 0))\<rparr>))"
proof -
  have len: "length sub = length rs" using assms(1) by (metis length_map)
  obtain a0 a1 rest where sub: "sub = a0 # a1 # rest"
    using assms(2) len by (cases sub; cases "tl sub") auto
  obtain l0 r0 l1 r1 where a: "a0 = (l0, r0)" "a1 = (l1, r1)" by (cases a0; cases a1) auto
  have nth_snd: "\<And>i. i < length rs \<Longrightarrow> snd (sub ! i) = with_aki (rs ! i)"
    using assms(1) len by (metis nth_map)
  have l0: "0 < length rs" and l1: "1 < length rs" using assms(2) by arith+
  have r0: "r0 = with_aki (rs ! 0)" using nth_snd [OF l0] sub a by simp
  have r1: "r1 = with_aki (rs ! 1)" using nth_snd [OF l1] sub a by simp
  have scr: "column Creatinine sub = map (\<lambda>r. vals r Creatinine) rs"
    by (simp add: column_map_snd assms(1) with_aki_def o_def)
  have demo: "age r0 = age (rs ! 0)" "black r0 = black (rs ! 0)" "gender r0 = gender (rs ! 0)"
    "vals r0 Creatinine = vals (rs ! 0) Creatinine" "vals r1 Creatinine = vals (rs ! 1) Creatinine"
    unfolding r0 r1 by (simp_all add: with_aki_def)
  show ?thesis
  proof (cases gone)
    case True
    then have "stay_outcome sub = Inr []"
      using assms(4) demo unfolding stay_outcome_def sub a assms(3) by auto
    then show ?thesis using True by simp
  next
    case False
    let ?sub' = "take 8 (map (\<lambda>((l, r), v). (l, r\<lparr>aki := Num (of_int v)\<rparr>))
                (zip (butlast sub) (0 # aki_flags (column Creatinine sub) b)))"
    have out: "stay_outcome sub = Inr ?sub'"
      using False assms(4) demo unfolding stay_outcome_def assms(3)
      by (simp add: sub a del: butlast.simps)
    have lz: "length (zip (butlast sub) (0 # aki_flags (column Creatinine sub) b)) = length rs - 1"
      using assms(2) by (simp add: aki_flags_length scr len)
    have l': "length ?sub' = min 8 (length rs - 1)" using lz by simp
    have "\<forall>i < min 8 (length rs - 1).
           snd (?sub' ! i) = (with_aki (rs ! i))\<lparr>aki :=
              Num (of_int (if i = 0 then 0
                           else if cell_ge (cell_sub (vals (rs ! (i + 1)) Creatinine)
                                              (vals (rs ! i) Creatinine)) (Num (fl64 0.3)) \<or>
                                   cell_ge (vals (rs ! (i + 1)) Creatinine) (Num b)
                                then 1 else 0))\<rparr>"
    proof (intro allI impI)
      fix i assume i: "i < min 8 (length rs - 1)"
      then have i8: "i < 8" and il: "i < length rs - 1" by simp_all
      have iz: "i < length (zip (butlast sub) (0 # aki_flags (column Creatinine sub) b))"
        using il lz by simp
      have bl: "butlast sub ! i = sub ! i" using il len by (simp add: nth_butlast)
      have fl: "(0 # aki_flags (column Creatinine sub) b) ! i =
           (if i = 0 then 0
            else if cell_ge (cell_sub (vals (rs ! (i + 1)) Creatinine)
                              (vals (rs ! i) Creatinine)) (Num (fl64 0.3)) \<or>
                    cell_ge (vals (rs ! (i + 1)) Creatinine) (Num b)
                 then 1 else 0)"
      proof (cases i)
        case 0
        then show ?thesis by simp
      next
        case (Suc j)
        have j: "j + 2 < length (column Creatinine sub)" using il Suc by (simp add: scr)
        show ?thesis using Suc aki_flags_nth [OF j, of b] il by (simp add: scr)
      qed
      have "?sub' ! i = (\<lambda>((l, r), v). (l, r\<lparr>aki := Num (of_int v)\<rparr>))
                (zip (butlast sub) (0 # aki_flags (column Creatinine sub) b) ! i)"
        using i8 iz by simp
      also have "\<dots> = (fst (sub ! i), (snd (sub ! i))\<lparr>aki := Num (of_int ((0 # aki_flags (column Creatinine sub) b) ! i))\<rparr>)"
        using iz bl by (simp add: split_def)
      finally have "snd (?sub' ! i) = (snd (sub ! i))\<lparr>aki := Num (of_int ((0 # aki_flags (column Creatinine sub) b) ! i))\<rparr>"
        by simp
      then show "snd (?sub' ! i) = (with_aki (rs ! i))\<lparr>aki :=
              Num (of_int (if i = 0 then 0
                           else if cell_ge (cell_sub (vals (rs ! (i + 1)) Creatinine)
                                              (vals (rs ! i) Creatinine)) (Num (fl64 0.3)) \<or>
                                   cell_ge (vals (rs ! (i + 1)) Creatinine) (Num b)
                                then 1 else 0))\<rparr>"
        using nth_snd [of i] il unfolding fl by simp
    qed
    then show ?thesis using out l' False by blast
  qed
qed

lemma stay_outcome_young:
  assumes "map snd sub = map with_aki rs" "rs \<noteq> []" "age (rs ! 0) < 20"
  shows "stay_outcome sub = Inr []"
proof -
  obtain a0 rest where sub: "sub = a0 # rest"
    using assms(1,2) by (cases sub) auto
  obtain l0 r0 where a: "a0 = (l0, r0)" by (cases a0)
  have "snd (sub ! 0) = with_aki (rs ! 0)"
    using assms(1,2) by (metis length_greater_0_conv length_map nth_map)
  then have "age r0 = age (rs ! 0)" unfolding sub a by (simp add: with_aki_def)
  then show ?thesis using assms(3) unfolding stay_outcome_def sub a by simp
qed

lemma stay_outcome_rows:
  assumes "map snd sub = map with_aki rs" "rs \<noteq> []" "length rs = 1 \<longrightarrow> age (rs ! 0) < 20"
    and "b = fl64 (fl64 1.5 * fl64 (get_baseline (black (rs ! 0)) (age (rs ! 0)) (gender (rs ! 0))))"
    and "gone = (age (rs ! 0) < 20 \<or>
           cell_ge (cell_sub (vals (rs ! 1) Creatinine) (vals (rs ! 0) Creatinine)) (Num (fl64 0.3)) \<or>
           cell_ge (vals (rs ! 0) Creatinine) (Num b) \<or>
           cell_ge (vals (rs ! 1) Creatinine) (Num b))"
  shows "\<exists>sub'. stay_outcome sub = Inr sub' \<and> (gone \<longrightarrow> sub' = []) \<and>
     (\<not> gone \<longrightarrow> length sub' = min 8 (length rs - 1) \<and>
        (\<forall>i < min 8 (length rs - 1).
           snd (sub' ! i) = (with_aki (rs ! i))\<lparr>aki :=
              Num (of_int (if i = 0 then 0
                           else if cell_ge (cell_sub (vals (rs ! (i + 1)) Creatinine)
                                              (vals (rs ! i) Creatinine)) (Num (fl64 0.3)) \<or>
                                   cell_ge (vals (rs ! (i + 1)) Creatinine) (Num b)
                                then 1 else 0))\<rparr>))"
proof (cases "length rs = 1")
  case True
  then have y: "age (rs ! 0) < 20" using assms(3) by simp
  then have "gone" using assms(5) by simp
  moreover have "stay_outcome sub = Inr []" by (rule stay_outcome_young [OF assms(1,2) y])
  ultimately show ?thesis by simp
next
  case False
  have "length rs \<noteq> 0" using assms(2) by simp
  then have "2 \<le> length rs" using False by arith
  from stay_outcome_long [OF assms(1) this assms(4) assms(5)] show ?thesis .
qed

lemma add_aki_labels_rows:
  assumes "add_aki_labels rows = Inr out" "rs = map parse_floats (stay_rows s rows)"
    and "rs \<noteq> []" "length rs = 1 \<longrightarrow> age (rs ! 0) < 20"
    and "b = fl64 (fl64 1.5 * fl64 (get_baseline (black (rs ! 0)) (age (rs ! 0)) (gender (rs ! 0))))"
    and "gone = (age (rs ! 0) < 20 \<or>
           cell_ge (cell_sub (vals (rs ! 1) Creatinine) (vals (rs ! 0) Creatinine)) (Num (fl64 0.3)) \<or>
           cell_ge (vals (rs ! 0) Creatinine) (Num b) \<or>
           cell_ge (vals (rs ! 1) Creatinine) (Num b))"
  shows "(gone \<longrightarrow> stay_rows s out = []) \<and>
     (\<not> gone \<longrightarrow> length (stay_rows s out) = min 8 (length rs - 1) \<and>
        (\<forall>i < min 8 (length rs - 1).
           stay_rows s out ! i = (with_aki (rs ! i))\<lparr>aki :=
              Num (of_int (if i = 0 then 0
                           else if cell_ge (cell_sub (vals (rs ! (i + 1)) Creatinine)
                                              (vals (rs ! i) Creatinine)) (Num (fl64 0.3)) \<or>
                                   cell_ge (vals (rs ! (i + 1)) Creatinine) (Num b)
                                then 1 else 0))\<rparr>))"
proof -
  from add_aki_labels_stay [OF assms(1) assms(2)] assms(3)
  obtain sub sub' where s: "map snd sub = map with_aki rs" "map snd sub' = stay_rows s out"
    "stay_outcome sub = Inr sub'"
    by blast
  from stay_outcome_rows [OF s(1) assms(3) assms(4) assms(5) assms(6)] s(3)
  have p: "gone \<longrightarrow> sub' = []"
    "\<not> gone \<longrightarrow> length sub' = min 8 (length rs - 1) \<and>
        (\<forall>i < min 8 (length rs - 1).
           snd (sub' ! i) = (with_aki (rs ! i))\<lparr>aki :=
              Num (of_int (if i = 0 then 0
                           else if cell_ge (cell_sub (vals (rs ! (i + 1)) Creatinine)
                                              (vals (rs ! i) Creatinine)) (Num (fl64 0.3)) \<or>
                                   cell_ge (vals (rs ! (i + 1)) Creatinine) (Num b)
                                then 1 else 0))\<rparr>)"
    by auto
  have l: "length (stay_rows s out) = length sub'" using s(2) by (metis length_map)
  have n: "\<And>i. i < length sub' \<Longrightarrow> stay_rows s out ! i = snd (sub' ! i)"
    using s(2) by (metis nth_map)
  show ?thesis
  proof (intro conjI impI)
    assume gone
    then show "stay_rows s out = []" using p(1) s(2) by auto
  next
    assume "\<not> gone"
    then show "length (stay_rows s out) = min 8 (length rs - 1)" using p(2) l by simp
  next
    assume g: "\<not> gone"
    show "\<forall>i < min 8 (length rs - 1).
           stay_rows s out ! i = (with_aki (rs ! i))\<lparr>aki :=
              Num (of_int (if i = 0 then 0
                           else if cell_ge (cell_sub (vals (rs ! (i + 1)) Creatinine)
                                              (vals (rs ! i) Creatinine)) (Num (fl64 0.3)) \<or>
                                   cell_ge (vals (rs ! (i + 1)) Creatinine) (Num b)
                                then 1 else 0))\<rparr>"
    proof (intro allI impI)
      fix i assume i: "i < min 8 (length rs - 1)"
      then have "i < length sub'" using p(2) g by simp
      from n [OF this] show "stay_rows s out ! i = (with_aki (rs ! i))\<lparr>aki :=
              Num (of_int (if i = 0 then 0
                           else if cell_ge (cell_sub (vals (rs ! (i + 1)) Creatinine)
                                              (vals (rs ! i) Creatinine)) (Num (fl64 0.3)) \<or>
                                   cell_ge (vals (rs ! (i + 1)) Creatinine) (Num b)
                                then 1 else 0))\<rparr>"
        using p(2) g i by simp
    qed
  qed
qed

lemma parsed_single:
  assumes "\<forall>s. length (stay_rows s rows) = 1 \<longrightarrow> age (stay_rows s rows ! 0) < 20"
  shows "length (map parse_floats (stay_rows s rows)) = 1 \<longrightarrow>
         age (map parse_floats (stay_rows s rows) ! 0) < 20"
proof
  assume "length (map parse_floats (stay_rows s rows)) = 1"
  then have l: "length (stay_rows s rows) = 1" by simp
  then have "age (stay_rows s rows ! 0) < 20" using assms by blast
  then show "age (map parse_floats (stay_rows s rows) ! 0) < 20"
    using l by (simp add: parse_floats_keys)
qed

lemma add_aki_labels_returns:
  assumes "\<forall>s. length (stay_rows s rows) = 1 \<longrightarrow> age (stay_rows s rows ! 0) < 20"
  shows "\<exists>out. add_aki_labels rows = Inr out"
proof (rule add_aki_labels_total, intro allI impI)
  fix s and sub :: "lrow frame"
  assume sub: "map snd sub = map with_aki (map parse_floats (stay_rows s rows))"
    and ne: "stay_rows s rows \<noteq> []"
  have ne': "map parse_floats (stay_rows s rows) \<noteq> []" using ne by simp
  from stay_outcome_rows [OF sub ne' parsed_single [OF assms] refl refl]
  show "\<exists>y. stay_outcome sub = Inr y" by blast
qed

text \<open>
  Claim C3.  Take a stay of \<open>n \<ge> 3\<close> Day-Records that the labeler keeps; \<open>rs\<close> are its
  records as read from the file, the cells being floats.  Its record at index 0 gets label
  0.  Its record at index \<open>i\<close>, for \<open>i\<close> from 1 on, gets label 1 exactly when the creatinine
  of day \<open>i + 1\<close> minus that of day \<open>i\<close> is at least 0.3 or the creatinine of day \<open>i + 1\<close> is
  at least 1.5 times the baseline, and 0 otherwise.  The difference, the product and the
  two comparisons are those of float64: the difference and the product are rounded, and
  0.3 and the baseline are the floats of the literals.  The last record (index \<open>n - 1\<close>) is
  removed and the stay is cut to its first 8 remaining records: the output holds the
  records of index below \<open>min 8 (n - 1)\<close>, unchanged but for the label.
\<close>

theorem add_aki_labels_next_day:
  assumes "add_aki_labels rows = Inr out" "rs = map parse_floats (stay_rows s rows)"
    and "3 \<le> length rs"
    and "b = fl64 (fl64 1.5 * fl64 (get_baseline (black (rs ! 0)) (age (rs ! 0)) (gender (rs ! 0))))"
    and "kept = stay_rows s out" "kept \<noteq> []"
  shows "length kept = min 8 (length rs - 1) \<and>
     kept ! 0 = (with_aki (rs ! 0))\<lparr>aki := Num 0\<rparr> \<and>
     (\<forall>i. 1 \<le> i \<and> i < min 8 (length rs - 1) \<longrightarrow>
        kept ! i = (with_aki (rs ! i))\<lparr>aki :=
           Num (if cell_ge (cell_sub (vals (rs ! (i + 1)) Creatinine) (vals (rs ! i) Creatinine)) (Num (fl64 0.3)) \<or>
                   cell_ge (vals (rs ! (i + 1)) Creatinine) (Num b)
                then 1 else 0)\<rparr> \<and>
        (\<forall>x y. vals (rs ! i) Creatinine = Num x \<and> vals (rs ! (i + 1)) Creatinine = Num y \<longrightarrow>
           aki (kept ! i) = Num (if fl64 (y - x) \<ge> fl64 0.3 \<or> y \<ge> b then 1 else 0)))"
proof -
  define gone where "gone = (age (rs ! 0) < 20 \<or>
           cell_ge (cell_sub (vals (rs ! 1) Creatinine) (vals (rs ! 0) Creatinine)) (Num (fl64 0.3)) \<or>
           cell_ge (vals (rs ! 0) Creatinine) (Num b) \<or>
           cell_ge (vals (rs ! 1) Creatinine) (Num b))"
  have ne: "rs \<noteq> []" and l1: "length rs = 1 \<longrightarrow> age (rs ! 0) < 20" using assms(3) by auto
  note r = add_aki_labels_rows [OF assms(1) assms(2) ne l1 assms(4) gone_def, folded assms(5)]
  have ng: "\<not> gone" using r assms(6) by blast
  then have len: "length kept = min 8 (length rs - 1)"
    and row: "\<And>i. i < min 8 (length rs - 1) \<Longrightarrow>
           kept ! i = (with_aki (rs ! i))\<lparr>aki :=
              Num (of_int (if i = 0 then 0
                           else if cell_ge (cell_sub (vals (rs ! (i + 1)) Creatinine)
                                              (vals (rs ! i) Creatinine)) (Num (fl64 0.3)) \<or>
                                   cell_ge (vals (rs ! (i + 1)) Creatinine) (Num b)
                                then 1 else 0))\<rparr>"
    using r by blast+
  have "0 < min 8 (length rs - 1)" using assms(3) by simp
  from row [OF this] have first: "kept ! 0 = (with_aki (rs ! 0))\<lparr>aki := Num 0\<rparr>" by simp
  have rest: "\<forall>i. 1 \<le> i \<and> i < min 8 (length rs - 1) \<longrightarrow>
        kept ! i = (with_aki (rs ! i))\<lparr>aki :=
           Num (if cell_ge (cell_sub (vals (rs ! (i + 1)) Creatinine) (vals (rs ! i) Creatinine)) (Num (fl64 0.3)) \<or>
                   cell_ge (vals (rs ! (i + 1)) Creatinine) (Num b)
                then 1 else 0)\<rparr> \<and>
        (\<forall>x y. vals (rs ! i) Creatinine = Num x \<and> vals (rs ! (i + 1)) Creatinine = Num y \<longrightarrow>
           aki (kept ! i) = Num (if fl64 (y - x) \<ge> fl64 0.3 \<or> y \<ge> b then 1 else 0))"
  proof (intro allI impI)
    fix i assume i: "1 \<le> i \<and> i < min 8 (length rs - 1)"
    then have i0: "i \<noteq> 0" and il: "i < min 8 (length rs - 1)" by simp_all
    have a: "kept ! i = (with_aki (rs ! i))\<lparr>aki :=
           Num (if cell_ge (cell_sub (vals (rs ! (i + 1)) Creatinine) (vals (rs ! i) Creatinine)) (Num (fl64 0.3)) \<or>
                   cell_ge (vals (rs ! (i + 1)) Creatinine) (Num b)
                then 1 else 0)\<rparr>"
      using row [OF il] i0 by simp
    have "\<forall>x y. vals (rs ! i) Creatinine = Num x \<and> vals (rs ! (i + 1)) Creatinine = Num y \<longrightarrow>
           aki (kept ! i) = Num (if fl64 (y - x) \<ge> fl64 0.3 \<or> y \<ge> b then 1 else 0)"
      unfolding a by simp
    with a show "kept ! i = (with_aki (rs ! i))\<lparr>aki :=
           Num (if cell_ge (cell_sub (vals (rs ! (i + 1)) Creatinine) (vals (rs ! i) Creatinine)) (Num (fl64 0.3)) \<or>
                   cell_ge (vals (rs ! (i + 1)) Creatinine) (Num b)
                then 1 else 0)\<rparr> \<and>
        (\<forall>x y. vals (rs ! i) Creatinine = Num x \<and> vals (rs ! (i + 1)) Creatinine = Num y \<longrightarrow>
           aki (kept ! i) = Num (if fl64 (y - x) \<ge> fl64 0.3 \<or> y \<ge> b then 1 else 0))" ..
  qed
  show ?thesis using len first rest by blast
qed

text \<open>
  On \<open>aki_table\<close>: in stay 7 the rise from 0.4 to 0.7 is below the float of 0.3 and gives
  label 0, the rise from 0.7 to 1.0 is above it and gives label 1; in stay 11 the
  creatinine 1.65 is below the threshold and gives label 0, 1.66 gives label 1.
\<close>

lemma aki_table_run: "add_aki_labels aki_table = Inr aki_table_labelled"
  by (simp add: add_aki_labels_def aki_table_labelled_def labelled_def aki_table_def lab_row_def with_aki_def
      parse_floats_def read_csv_def to_csv_def stay_ids_of_def add_aki_stay_def stay_frame_def drop_stay_def
      drop_labels_def column_def has_aki_def get_baseline_def upt_rec fl64_eval)

theorem add_aki_labels_next_day_witness:
  "add_aki_labels aki_table = Inr aki_table_labelled \<and>
   length (stay_rows 7 aki_table_labelled) = 4 \<and>
   aki (stay_rows 7 aki_table_labelled ! 0) = Num 0 \<and>
   aki (stay_rows 7 aki_table_labelled ! 1) = Num 0 \<and>
   aki (stay_rows 7 aki_table_labelled ! 2) = Num 1 \<and>
   aki (stay_rows 7 aki_table_labelled ! 3) = Num 0 \<and>
   length (stay_rows 11 aki_table_labelled) = 3 \<and>
   aki (stay_rows 11 aki_table_labelled ! 0) = Num 0 \<and>
   aki (stay_rows 11 aki_table_labelled ! 1) = Num 0 \<and>
   aki (stay_rows 11 aki_table_labelled ! 2) = Num 1"
proof -
  let ?out = "aki_table_labelled"
  let ?rs = "map parse_floats (stay_rows 7 aki_table)"
  let ?qs = "map parse_floats (stay_rows 11 aki_table)"
  have rs: "stay_rows 7 aki_table = take 5 aki_table"
    and qs: "stay_rows 11 aki_table = drop 5 aki_table"
    by (simp_all add: stay_rows_def aki_table_def lab_row_def)
  have h3: "3 \<le> length ?rs" and k3: "3 \<le> length ?qs"
    unfolding rs qs by (simp_all add: aki_table_def)
  have h6: "stay_rows 7 ?out \<noteq> []" and k6: "stay_rows 11 ?out \<noteq> []"
    by (simp_all add: stay_rows_def aki_table_labelled_def labelled_def aki_table_def lab_row_def
        with_aki_def parse_floats_def)
  note t = add_aki_labels_next_day [OF aki_table_run refl h3 refl refl h6]
  note u = add_aki_labels_next_day [OF aki_table_run refl k3 refl refl k6]
  have l: "min 8 (length ?rs - 1) = 4" and m: "min 8 (length ?qs - 1) = 3"
    unfolding rs qs by (simp_all add: aki_table_def)
  have b: "get_baseline (black (?rs ! 0)) (age (?rs ! 0)) (gender (?rs ! 0)) = 1.1"
    "get_baseline (black (?qs ! 0)) (age (?qs ! 0)) (gender (?qs ! 0)) = 1.1"
    unfolding rs qs by (simp_all add: aki_table_def lab_row_def get_baseline_def parse_floats_def)
  have c: "vals (?rs ! 1) Creatinine = Num (fl64 0.4)" "vals (?rs ! (1 + 1)) Creatinine = Num (fl64 0.7)"
    "vals (?rs ! 2) Creatinine = Num (fl64 0.7)" "vals (?rs ! (2 + 1)) Creatinine = Num (fl64 1.0)"
    "vals (?rs ! 3) Creatinine = Num (fl64 1.0)" "vals (?rs ! (3 + 1)) Creatinine = Num (fl64 1.0)"
    unfolding rs by (simp_all add: aki_table_def lab_row_def parse_floats_def)
  have e: "vals (?qs ! 1) Creatinine = Num (fl64 1.4)" "vals (?qs ! (1 + 1)) Creatinine = Num (fl64 1.65)"
    "vals (?qs ! 2) Creatinine = Num (fl64 1.65)" "vals (?qs ! (2 + 1)) Creatinine = Num (fl64 1.66)"
    unfolding qs by (simp_all add: aki_table_def lab_row_def parse_floats_def)
  have R: "\<And>i x y. 1 \<le> i \<Longrightarrow> i < min 8 (length ?rs - 1) \<Longrightarrow>
      vals (?rs ! i) Creatinine = Num x \<Longrightarrow> vals (?rs ! (i + 1)) Creatinine = Num y \<Longrightarrow>
      aki (stay_rows 7 ?out ! i) = Num (if fl64 (y - x) \<ge> fl64 0.3 \<or>
          y \<ge> fl64 (fl64 1.5 * fl64 (get_baseline (black (?rs ! 0)) (age (?rs ! 0)) (gender (?rs ! 0)))) then 1 else 0)"
    using t by blast
  have Q: "\<And>i x y. 1 \<le> i \<Longrightarrow> i < min 8 (length ?qs - 1) \<Longrightarrow>
      vals (?qs ! i) Creatinine = Num x \<Longrightarrow> vals (?qs ! (i + 1)) Creatinine = Num y \<Longrightarrow>
      aki (stay_rows 11 ?out ! i) = Num (if fl64 (y - x) \<ge> fl64 0.3 \<or>
          y \<ge> fl64 (fl64 1.5 * fl64 (get_baseline (black (?qs ! 0)) (age (?qs ! 0)) (gender (?qs ! 0)))) then 1 else 0)"
    using u by blast
  have i1: "(1::nat) < min 8 (length ?rs - 1)" and i2: "(2::nat) < min 8 (length ?rs - 1)"
    and i3: "(3::nat) < min 8 (length ?rs - 1)"
    unfolding l by simp_all
  have j1: "(1::nat) < min 8 (length ?qs - 1)" and j2: "(2::nat) < min 8 (length ?qs - 1)"
    unfolding m by simp_all
  have a1: "aki (stay_rows 7 ?out ! 1) = Num 0"
    using R [OF _ i1 c(1) c(2)] unfolding b by (simp add: fl64_eval)
  have a2: "aki (stay_rows 7 ?out ! 2) = Num 1"
    using R [OF _ i2 c(3) c(4)] unfolding b by (simp add: fl64_eval)
  have a3: "aki (stay_rows 7 ?out ! 3) = Num 0"
    using R [OF _ i3 c(5) c(6)] unfolding b by (simp add: fl64_eval)
  have b1: "aki (stay_rows 11 ?out ! 1) = Num 0"
    using Q [OF _ j1 e(1) e(2)] unfolding b by (simp add: fl64_eval)
  have b2: "aki (stay_rows 11 ?out ! 2) = Num 1"
    using Q [OF _ j2 e(3) e(4)] unfolding b by (simp add: fl64_eval)
  from t have a0: "length (stay_rows 7 ?out) = 4" "aki (stay_rows 7 ?out ! 0) = Num 0"
    using l by simp_all
  from u have b0: "length (stay_rows 11 ?out) = 3" "aki (stay_rows 11 ?out ! 0) = Num 0"
    using m by simp_all
  show ?thesis using aki_table_run a0 a1 a2 a3 b0 b1 b2 by simp
qed

text \<open>
  Claim C4.  On a table in which every stay of a single row has an age below 20 the
  labeler returns a table (on a single row of age 20 or more the source fails at
  \<open>diffs[0]\<close>).  A stay is absent from the output exactly when the age is below 20, or
  the creatinine rises by at least 0.3 from day 0 to day 1, or the creatinine of day 0 or
  of day 1 is at least 1.5 times the baseline; otherwise the stay is kept (without its
  last record, at most 8 records).  The stay's records \<open>rs\<close> are taken as read from the
  file, and the difference, the product and the comparisons are those of float64.  The
  decision reads the first two days only: any table whose stay has the same first two
  records gets the same decision.
\<close>

theorem add_aki_labels_removal:
  assumes "\<forall>s. length (stay_rows s rows) = 1 \<longrightarrow> age (stay_rows s rows ! 0) < 20"
    and "rs = map parse_floats (stay_rows s rows)" "rs \<noteq> []"
    and "b = fl64 (fl64 1.5 * fl64 (get_baseline (black (rs ! 0)) (age (rs ! 0)) (gender (rs ! 0))))"
  shows "\<exists>out. add_aki_labels rows = Inr out \<and>
     (stay_rows s out = [] \<longleftrightarrow>
        age (rs ! 0) < 20 \<or>
        cell_ge (cell_sub (vals (rs ! 1) Creatinine) (vals (rs ! 0) Creatinine)) (Num (fl64 0.3)) \<or>
        cell_ge (vals (rs ! 0) Creatinine) (Num b) \<or>
        cell_ge (vals (rs ! 1) Creatinine) (Num b)) \<and>
     (\<forall>x0 x1. vals (rs ! 0) Creatinine = Num x0 \<and> vals (rs ! 1) Creatinine = Num x1 \<longrightarrow>
        (stay_rows s out = [] \<longleftrightarrow>
           age (rs ! 0) < 20 \<or> fl64 (x1 - x0) \<ge> fl64 0.3 \<or> x0 \<ge> b \<or> x1 \<ge> b)) \<and>
     (stay_rows s out \<noteq> [] \<longrightarrow>
        length (stay_rows s out) = min 8 (length rs - 1) \<and>
        (\<forall>i < min 8 (length rs - 1). \<exists>v. stay_rows s out ! i = (with_aki (rs ! i))\<lparr>aki := v\<rparr>)) \<and>
     (\<forall>rows'. (\<forall>s. length (stay_rows s rows') = 1 \<longrightarrow> age (stay_rows s rows' ! 0) < 20) \<and>
               take 2 (map parse_floats (stay_rows s rows')) = take 2 rs \<longrightarrow>
        (\<exists>out'. add_aki_labels rows' = Inr out' \<and>
                (stay_rows s out' = [] \<longleftrightarrow> stay_rows s out = [])))"
proof -
  define gone where "gone = (age (rs ! 0) < 20 \<or>
           cell_ge (cell_sub (vals (rs ! 1) Creatinine) (vals (rs ! 0) Creatinine)) (Num (fl64 0.3)) \<or>
           cell_ge (vals (rs ! 0) Creatinine) (Num b) \<or>
           cell_ge (vals (rs ! 1) Creatinine) (Num b))"
  from add_aki_labels_returns [OF assms(1)] obtain out where out: "add_aki_labels rows = Inr out"
    by blast
  have l1: "length rs = 1 \<longrightarrow> age (rs ! 0) < 20"
    unfolding assms(2) by (rule parsed_single [OF assms(1)])
  note r = add_aki_labels_rows [OF out assms(2) assms(3) l1 assms(4) gone_def]
  have pos: "\<not> gone \<Longrightarrow> 0 < min 8 (length rs - 1)"
  proof -
    assume "\<not> gone"
    then have "\<not> age (rs ! 0) < 20" unfolding gone_def by simp
    then have "length rs \<noteq> 1" using l1 by blast
    moreover have "length rs \<noteq> 0" using assms(3) by simp
    ultimately have "2 \<le> length rs" by arith
    then show ?thesis by simp
  qed
  have iff: "stay_rows s out = [] \<longleftrightarrow> gone"
  proof
    assume e: "stay_rows s out = []"
    show gone
    proof (rule ccontr)
      assume ng: "\<not> gone"
      then have "length (stay_rows s out) = min 8 (length rs - 1)" using r by blast
      then show False using e pos [OF ng] by simp
    qed
  next
    assume gone then show "stay_rows s out = []" using r by blast
  qed
  have num: "\<forall>x0 x1. vals (rs ! 0) Creatinine = Num x0 \<and> vals (rs ! 1) Creatinine = Num x1 \<longrightarrow>
        (stay_rows s out = [] \<longleftrightarrow>
           age (rs ! 0) < 20 \<or> fl64 (x1 - x0) \<ge> fl64 0.3 \<or> x0 \<ge> b \<or> x1 \<ge> b)"
    unfolding iff gone_def by simp
  have kept: "stay_rows s out \<noteq> [] \<longrightarrow>
        length (stay_rows s out) = min 8 (length rs - 1) \<and>
        (\<forall>i < min 8 (length rs - 1). \<exists>v. stay_rows s out ! i = (with_aki (rs ! i))\<lparr>aki := v\<rparr>)"
  proof
    assume "stay_rows s out \<noteq> []"
    then have "\<not> gone" using iff by simp
    then show "length (stay_rows s out) = min 8 (length rs - 1) \<and>
        (\<forall>i < min 8 (length rs - 1). \<exists>v. stay_rows s out ! i = (with_aki (rs ! i))\<lparr>aki := v\<rparr>)"
      using r by blast
  qed
  have later: "\<forall>rows'. (\<forall>s. length (stay_rows s rows') = 1 \<longrightarrow> age (stay_rows s rows' ! 0) < 20) \<and>
               take 2 (map parse_floats (stay_rows s rows')) = take 2 rs \<longrightarrow>
        (\<exists>out'. add_aki_labels rows' = Inr out' \<and>
                (stay_rows s out' = [] \<longleftrightarrow> stay_rows s out = []))"
  proof (intro allI impI)
    fix rows' :: "drow list"
    assume a: "(\<forall>s. length (stay_rows s rows') = 1 \<longrightarrow> age (stay_rows s rows' ! 0) < 20) \<and>
        take 2 (map parse_floats (stay_rows s rows')) = take 2 rs"
    define rs' where "rs' = map parse_floats (stay_rows s rows')"
    have a1: "\<forall>s. length (stay_rows s rows') = 1 \<longrightarrow> age (stay_rows s rows' ! 0) < 20"
      and t2: "take 2 rs' = take 2 rs" using a unfolding rs'_def by blast+
    from add_aki_labels_returns [OF a1] obtain out' where out': "add_aki_labels rows' = Inr out'"
      by blast
    have lt: "length (take 2 rs') = length (take 2 rs)" using t2 by simp
    then have ne': "rs' \<noteq> []" using assms(3) by (cases rs'; cases rs) auto
    have l1': "length rs' = 1 \<longrightarrow> age (rs' ! 0) < 20"
      unfolding rs'_def by (rule parsed_single [OF a1])
    have e0: "rs' ! 0 = rs ! 0"
    proof -
      have "take 2 rs' ! 0 = rs' ! 0" using ne' by (cases rs') auto
      moreover have "take 2 rs ! 0 = rs ! 0" using assms(3) by (cases rs) auto
      ultimately show ?thesis using t2 by simp
    qed
    show "\<exists>out'. add_aki_labels rows' = Inr out' \<and>
                (stay_rows s out' = [] \<longleftrightarrow> stay_rows s out = [])"
    proof (cases "age (rs ! 0) < 20")
      case True
      then have g: gone unfolding gone_def by simp
      define gone' where "gone' = (age (rs' ! 0) < 20 \<or>
           cell_ge (cell_sub (vals (rs' ! 1) Creatinine) (vals (rs' ! 0) Creatinine)) (Num (fl64 0.3)) \<or>
           cell_ge (vals (rs' ! 0) Creatinine)
             (Num (fl64 (fl64 1.5 * fl64 (get_baseline (black (rs' ! 0)) (age (rs' ! 0)) (gender (rs' ! 0)))))) \<or>
           cell_ge (vals (rs' ! 1) Creatinine)
             (Num (fl64 (fl64 1.5 * fl64 (get_baseline (black (rs' ! 0)) (age (rs' ! 0)) (gender (rs' ! 0)))))))"
      have g': gone' unfolding gone'_def e0 using True by simp
      note r' = add_aki_labels_rows [OF out' rs'_def ne' l1' refl gone'_def]
      have "stay_rows s out' = []" using r' g' by blast
      moreover have "stay_rows s out = []" using iff g by simp
      ultimately show ?thesis using out' by simp
    next
      case False
      then have "length rs \<noteq> 1" using l1 by blast
      moreover have "length rs \<noteq> 0" using assms(3) by simp
      ultimately have l2: "2 \<le> length rs" by arith
      then have l2': "2 \<le> length rs'" using lt by simp
      have e1: "rs' ! 1 = rs ! 1"
      proof -
        have "take 2 rs' ! 1 = rs' ! 1" using l2' by simp
        moreover have "take 2 rs ! 1 = rs ! 1" using l2 by simp
        ultimately show ?thesis using t2 by simp
      qed
      have g': "gone = (age (rs' ! 0) < 20 \<or>
           cell_ge (cell_sub (vals (rs' ! 1) Creatinine) (vals (rs' ! 0) Creatinine)) (Num (fl64 0.3)) \<or>
           cell_ge (vals (rs' ! 0) Creatinine) (Num b) \<or>
           cell_ge (vals (rs' ! 1) Creatinine) (Num b))"
        unfolding e0 e1 by (rule gone_def)
      have b': "b = fl64 (fl64 1.5 * fl64 (get_baseline (black (rs' ! 0)) (age (rs' ! 0)) (gender (rs' ! 0))))"
        unfolding e0 by (rule assms(4))
      note r' = add_aki_labels_rows [OF out' rs'_def ne' l1' b' g']
      have pos': "0 < min 8 (length rs' - 1)" using l2' by simp
      have "stay_rows s out' = [] \<longleftrightarrow> gone"
      proof
        assume e: "stay_rows s out' = []"
        show gone
        proof (rule ccontr)
          assume "\<not> gone"
          then have "length (stay_rows s out') = min 8 (length rs' - 1)" using r' by blast
          then show False using e pos' by simp
        qed
      next
        assume gone then show "stay_rows s out' = []" using r' by blast
      qed
      then show ?thesis using out' iff by blast
    qed
  qed
  show ?thesis using out iff [unfolded gone_def] num kept later by blast
qed

text \<open>
  On \<open>removal_table\<close>: stay 8 is removed for its rise of 0.4, stay 9 (one row) for its age,
  stay 14 for a creatinine of 1.66 on day 0; stay 12, whose rise from 0.4 to 0.7 is below
  the float of 0.3, and stay 13, whose creatinine 1.65 is below the threshold, are kept.
\<close>

lemma removal_table_run: "add_aki_labels removal_table = Inr removal_table_labelled"
  by (simp add: add_aki_labels_def removal_table_labelled_def labelled_def removal_table_def lab_row_def with_aki_def
      parse_floats_def read_csv_def to_csv_def stay_ids_of_def add_aki_stay_def stay_frame_def drop_stay_def
      drop_labels_def column_def has_aki_def get_baseline_def upt_rec fl64_eval)

theorem add_aki_labels_removal_witness:
  "add_aki_labels removal_table = Inr removal_table_labelled \<and>
   stay_rows 8 removal_table_labelled = [] \<and>
   stay_rows 9 removal_table_labelled = [] \<and>
   stay_rows 12 removal_table_labelled \<noteq> [] \<and>
   stay_rows 13 removal_table_labelled \<noteq> [] \<and>
   stay_rows 14 removal_table_labelled = []"
proof -
  have h1: "\<forall>s. length (stay_rows s removal_table) = 1 \<longrightarrow> age (stay_rows s removal_table ! 0) < 20"
    by (simp add: stay_rows_def removal_table_def lab_row_def)
  have r: "stay_rows 8 removal_table = take 3 removal_table"
    "stay_rows 9 removal_table = take 1 (drop 3 removal_table)"
    "stay_rows 12 removal_table = take 3 (drop 4 removal_table)"
    "stay_rows 13 removal_table = take 3 (drop 7 removal_table)"
    "stay_rows 14 removal_table = drop 10 removal_table"
    by (simp_all add: stay_rows_def removal_table_def lab_row_def)
  have ne: "map parse_floats (stay_rows 8 removal_table) \<noteq> []"
    "map parse_floats (stay_rows 9 removal_table) \<noteq> []"
    "map parse_floats (stay_rows 12 removal_table) \<noteq> []"
    "map parse_floats (stay_rows 13 removal_table) \<noteq> []"
    "map parse_floats (stay_rows 14 removal_table) \<noteq> []"
    unfolding r by (simp_all add: removal_table_def)
  have D: "\<And>s. map parse_floats (stay_rows s removal_table) \<noteq> [] \<Longrightarrow>
      stay_rows s removal_table_labelled = [] \<longleftrightarrow>
        age (map parse_floats (stay_rows s removal_table) ! 0) < 20 \<or>
        cell_ge (cell_sub (vals (map parse_floats (stay_rows s removal_table) ! 1) Creatinine)
                          (vals (map parse_floats (stay_rows s removal_table) ! 0) Creatinine))
                (Num (fl64 0.3)) \<or>
        cell_ge (vals (map parse_floats (stay_rows s removal_table) ! 0) Creatinine)
          (Num (fl64 (fl64 1.5 * fl64 (get_baseline
             (black (map parse_floats (stay_rows s removal_table) ! 0))
             (age (map parse_floats (stay_rows s removal_table) ! 0))
             (gender (map parse_floats (stay_rows s removal_table) ! 0)))))) \<or>
        cell_ge (vals (map parse_floats (stay_rows s removal_table) ! 1) Creatinine)
          (Num (fl64 (fl64 1.5 * fl64 (get_baseline
             (black (map parse_floats (stay_rows s removal_table) ! 0))
             (age (map parse_floats (stay_rows s removal_table) ! 0))
             (gender (map parse_floats (stay_rows s removal_table) ! 0))))))"
    using add_aki_labels_removal [OF h1 refl _ refl] unfolding removal_table_run by blast
  have "stay_rows 8 removal_table_labelled = []"
    unfolding D [OF ne(1)] unfolding r
    by (simp add: removal_table_def lab_row_def get_baseline_def parse_floats_def fl64_eval)
  moreover have "stay_rows 9 removal_table_labelled = []"
    unfolding D [OF ne(2)] unfolding r
    by (simp add: removal_table_def lab_row_def get_baseline_def parse_floats_def fl64_eval)
  moreover have "stay_rows 12 removal_table_labelled \<noteq> []"
    unfolding D [OF ne(3)] unfolding r
    by (simp add: removal_table_def lab_row_def get_baseline_def parse_floats_def fl64_eval)
  moreover have "stay_rows 13 removal_table_labelled \<noteq> []"
    unfolding D [OF ne(4)] unfolding r
    by (simp add: removal_table_def lab_row_def get_baseline_def parse_floats_def fl64_eval)
  moreover have "stay_rows 14 removal_table_labelled = []"
    unfolding D [OF ne(5)] unfolding r
    by (simp add: removal_table_def lab_row_def get_baseline_def parse_floats_def fl64_eval)
  ultimately show ?thesis using removal_table_run by simp
qed

section \<open>Properties of the outlier clipper\<close>

text \<open>The interpolated value of a sorted list at a real position.\<close>

lemma interp_between:
  fixes xs :: "real list"
  assumes "sorted xs" "j < length xs" "0 \<le> g" "g \<le> 1"
  shows "xs ! j \<le> xs ! j + (xs ! (min (j + 1) (length xs - 1)) - xs ! j) * g"
    and "xs ! j + (xs ! (min (j + 1) (length xs - 1)) - xs ! j) * g \<le> xs ! (min (j + 1) (length xs - 1))"
proof -
  let ?k = "min (j + 1) (length xs - 1)"
  have k: "j \<le> ?k" "?k < length xs" using assms(2) by auto
  then have ab: "xs ! j \<le> xs ! ?k" using assms(1) by (simp add: sorted_nth_mono)
  then have nn: "0 \<le> (xs ! ?k - xs ! j) * g" using assms(3) by simp
  then show "xs ! j \<le> xs ! j + (xs ! ?k - xs ! j) * g" by simp
  have "(xs ! ?k - xs ! j) * g \<le> (xs ! ?k - xs ! j) * 1"
    using ab assms(4) by (intro mult_left_mono) auto
  then show "xs ! j + (xs ! ?k - xs ! j) * g \<le> xs ! ?k" by simp
qed

lemma interp_mono:
  fixes xs :: "real list"
  assumes "sorted xs" "xs \<noteq> []" "0 \<le> h1" "h1 \<le> h2" "h2 \<le> real (length xs - 1)"
  shows "xs ! nat \<lfloor>h1\<rfloor> + (xs ! (min (nat \<lfloor>h1\<rfloor> + 1) (length xs - 1)) - xs ! nat \<lfloor>h1\<rfloor>) * (h1 - real (nat \<lfloor>h1\<rfloor>))
       \<le> xs ! nat \<lfloor>h2\<rfloor> + (xs ! (min (nat \<lfloor>h2\<rfloor> + 1) (length xs - 1)) - xs ! nat \<lfloor>h2\<rfloor>) * (h2 - real (nat \<lfloor>h2\<rfloor>))"
proof -
  let ?n = "length xs"
  define j1 where "j1 = nat \<lfloor>h1\<rfloor>"
  define j2 where "j2 = nat \<lfloor>h2\<rfloor>"
  define g1 where "g1 = h1 - real j1"
  define g2 where "g2 = h2 - real j2"
  have h2n: "0 \<le> h2" using assms(3,4) by simp
  have rj1: "real j1 = of_int \<lfloor>h1\<rfloor>" unfolding j1_def using assms(3) by simp
  have rj2: "real j2 = of_int \<lfloor>h2\<rfloor>" unfolding j2_def using h2n by simp
  have g1b: "0 \<le> g1" "g1 \<le> 1" unfolding g1_def rj1 by linarith+
  have g2b: "0 \<le> g2" "g2 \<le> 1" unfolding g2_def rj2 by linarith+
  have j12: "j1 \<le> j2" unfolding j1_def j2_def using assms(4) by (intro nat_mono floor_mono)
  have "real j2 \<le> h2" unfolding rj2 by linarith
  then have "real j2 \<le> real (?n - 1)" using assms(5) by linarith
  then have j2n: "j2 \<le> ?n - 1" by linarith
  have npos: "0 < ?n" using assms(2) by simp
  have j2l: "j2 < ?n" using j2n npos by linarith
  have j1l: "j1 < ?n" using j12 j2l by linarith
  let ?k1 = "min (j1 + 1) (?n - 1)"
  let ?k2 = "min (j2 + 1) (?n - 1)"
  have goal: "xs ! j1 + (xs ! ?k1 - xs ! j1) * g1 \<le> xs ! j2 + (xs ! ?k2 - xs ! j2) * g2"
  proof (cases "j1 = j2")
    case True
    have "g1 \<le> g2" unfolding g1_def g2_def True using assms(4) by simp
    moreover have "xs ! j2 \<le> xs ! ?k2"
      using assms(1) j2l by (intro sorted_nth_mono) auto
    ultimately have "(xs ! ?k2 - xs ! j2) * g1 \<le> (xs ! ?k2 - xs ! j2) * g2"
      by (intro mult_left_mono) auto
    then show ?thesis unfolding True by simp
  next
    case False
    then have lt: "j1 < j2" using j12 by simp
    have "xs ! j1 + (xs ! ?k1 - xs ! j1) * g1 \<le> xs ! ?k1"
      by (rule interp_between(2) [OF assms(1) j1l g1b])
    also have "xs ! ?k1 \<le> xs ! j2"
      using assms(1) lt j2l by (intro sorted_nth_mono) auto
    also have "xs ! j2 \<le> xs ! j2 + (xs ! ?k2 - xs ! j2) * g2"
      by (rule interp_between(1) [OF assms(1) j2l g2b])
    finally show ?thesis .
  qed
  show ?thesis using goal unfolding j1_def j2_def g1_def g2_def .
qed

lemma sort_Nil_iff: "sort xs = [] \<longleftrightarrow> xs = []"
  by (metis length_sort length_0_conv)

lemma quantile_NaN_iff: "quantile col q = NaN \<longleftrightarrow> nums col = []"
  by (simp add: quantile_def Let_def sort_Nil_iff)

lemma quantile_mono:
  assumes "0 \<le> q1" "q1 \<le> q2" "q2 \<le> 1" "quantile col q1 = Num l" "quantile col q2 = Num u"
  shows "l \<le> u"
proof -
  let ?xs = "sort (nums col)"
  have "nums col \<noteq> []" using assms(4) quantile_NaN_iff [of col q1] by auto
  then have ne: "?xs \<noteq> []" by (simp add: sort_Nil_iff)
  have n1: "0 \<le> real (length ?xs - 1)" by simp
  have a: "0 \<le> real (length ?xs - 1) * q1" using assms(1) by simp
  have b: "real (length ?xs - 1) * q1 \<le> real (length ?xs - 1) * q2"
    using assms(2) by (intro mult_left_mono) auto
  have "real (length ?xs - 1) * q2 \<le> real (length ?xs - 1) * 1"
    using assms(3) by (intro mult_left_mono) auto
  then have c: "real (length ?xs - 1) * q2 \<le> real (length ?xs - 1)" by simp
  note m = interp_mono [OF sorted_sort ne a b c]
  have l: "l = ?xs ! nat \<lfloor>real (length ?xs - 1) * q1\<rfloor> +
      (?xs ! (min (nat \<lfloor>real (length ?xs - 1) * q1\<rfloor> + 1) (length ?xs - 1)) -
         ?xs ! nat \<lfloor>real (length ?xs - 1) * q1\<rfloor>) *
      (real (length ?xs - 1) * q1 - real (nat \<lfloor>real (length ?xs - 1) * q1\<rfloor>))"
    using assms(4) ne unfolding quantile_def Let_def by (simp only: length_0_conv if_False cell.inject)
  have u: "u = ?xs ! nat \<lfloor>real (length ?xs - 1) * q2\<rfloor> +
      (?xs ! (min (nat \<lfloor>real (length ?xs - 1) * q2\<rfloor> + 1) (length ?xs - 1)) -
         ?xs ! nat \<lfloor>real (length ?xs - 1) * q2\<rfloor>) *
      (real (length ?xs - 1) * q2 - real (nat \<lfloor>real (length ?xs - 1) * q2\<rfloor>))"
    using assms(5) ne unfolding quantile_def Let_def by (simp only: length_0_conv if_False cell.inject)
  show ?thesis unfolding l u by (rule m)
qed

lemma unique_Nil_iff: "unique xs = [] \<longleftrightarrow> xs = []"
  by (cases xs) auto

lemma select_Nil_iff:
  "length ids = length msk \<Longrightarrow> select msk ids = [] \<longleftrightarrow> (\<forall>m \<in> set msk. \<not> m)"
proof (induction msk arbitrary: ids)
  case Nil
  then show ?case by (simp add: select_def)
next
  case (Cons m msk)
  then obtain i ids' where ids: "ids = i # ids'" by (cases ids) auto
  with Cons show ?case by (auto simp: select_def)
qed

lemma set_where_none:
  "length col = length msk \<Longrightarrow> \<forall>m \<in> set msk. \<not> m \<Longrightarrow> set_where msk v col = col"
proof (induction msk arbitrary: col)
  case Nil
  then show ?case by (simp add: set_where_def)
next
  case (Cons m msk)
  then obtain c col' where "col = c # col'" by (cases col) auto
  with Cons show ?case by (auto simp: set_where_def)
qed

lemma set_where_guard:
  assumes "length ids = length msk" "length col = length msk"
  shows "(if length (unique (select msk ids)) > 0 then set_where msk v col else col) = set_where msk v col"
proof (cases "length (unique (select msk ids)) > 0")
  case True
  then show ?thesis by simp
next
  case False
  then have "select msk ids = []" by (simp add: unique_Nil_iff)
  then have "\<forall>m \<in> set msk. \<not> m" using select_Nil_iff [OF assms(1)] by simp
  then show ?thesis using False set_where_none [OF assms(2)] by simp
qed

lemma set_where_length: "length (set_where msk v col) = min (length msk) (length col)"
  by (simp add: set_where_def)

lemma set_where_nth:
  "i < length msk \<Longrightarrow> i < length col \<Longrightarrow> set_where msk v col ! i = (if msk ! i then v else col ! i)"
  by (simp add: set_where_def)

lemma clip_feature_eq:
  "clip_feature f df =
     set_column f
       (set_where (map (\<lambda>v. cell_lt v (quantile (column f df) 0.01)) (column f df))
          (quantile (column f df) 0.01)
          (set_where (map (\<lambda>v. cell_gt v (quantile (column f df) 0.99)) (column f df))
             (quantile (column f df) 0.99) (column f df)))
       df"
proof -
  let ?col = "column f df"
  let ?ids = "map (\<lambda>(l, r). stay_id r) df"
  let ?um = "map (\<lambda>v. cell_gt v (quantile ?col 0.99)) ?col"
  let ?lm = "map (\<lambda>v. cell_lt v (quantile ?col 0.01)) ?col"
  let ?col1 = "set_where ?um (quantile ?col 0.99) ?col"
  have l: "length ?ids = length ?um" "length ?col = length ?um" "length ?ids = length ?lm"
    by (simp_all add: column_def)
  have l1: "length ?col1 = length ?lm" by (simp add: set_where_length)
  have a: "(if length (unique (select ?um ?ids)) > 0 then ?col1 else ?col) = ?col1"
    by (rule set_where_guard [OF l(1) l(2)])
  have b: "(if length (unique (select ?lm ?ids)) > 0
            then set_where ?lm (quantile ?col 0.01) ?col1 else ?col1)
           = set_where ?lm (quantile ?col 0.01) ?col1"
    by (rule set_where_guard [OF l(3) l1])
  show ?thesis unfolding clip_feature_def Let_def a b ..
qed

lemma clipped_length:
  "length (set_where (map (\<lambda>v. cell_lt v lb) col) lb (set_where (map (\<lambda>v. cell_gt v ub) col) ub col))
   = length col"
  by (simp add: set_where_length)

lemma clipped_nth:
  "i < length col \<Longrightarrow>
   set_where (map (\<lambda>v. cell_lt v lb) col) lb (set_where (map (\<lambda>v. cell_gt v ub) col) ub col) ! i
   = (if cell_lt (col ! i) lb then lb else if cell_gt (col ! i) ub then ub else col ! i)"
  by (simp add: set_where_nth set_where_length)

lemma set_column_column:
  "length col = length df \<Longrightarrow> column f (set_column f col df) = col"
  by (rule nth_equalityI) (auto simp: column_def set_column_def split_def)

lemma set_column_other:
  "length col = length df \<Longrightarrow> g \<noteq> f \<Longrightarrow> column g (set_column f col df) = column g df"
  by (rule nth_equalityI) (auto simp: column_def set_column_def split_def)

lemma set_column_erase:
  "length col = length df \<Longrightarrow>
   map (\<lambda>(l, r). (l, r\<lparr>vals := c\<rparr>)) (set_column f col df) = map (\<lambda>(l, r). (l, r\<lparr>vals := c\<rparr>)) df"
  by (rule nth_equalityI) (auto simp: set_column_def split_def)

lemma clip_feature_column:
  "column f (clip_feature f df) =
     map (\<lambda>v. if cell_lt v (quantile (column f df) 0.01) then quantile (column f df) 0.01
              else if cell_gt v (quantile (column f df) 0.99) then quantile (column f df) 0.99
              else v) (column f df)"
proof -
  have len: "length (column f df) = length df" by (simp add: column_def)
  show ?thesis
    unfolding clip_feature_eq
    by (subst set_column_column) (auto simp: clipped_length len clipped_nth intro!: nth_equalityI)
qed

lemma clip_feature_other: "g \<noteq> f \<Longrightarrow> column g (clip_feature f df) = column g df"
  unfolding clip_feature_eq
  by (rule set_column_other) (simp_all add: clipped_length column_length)

lemma clip_feature_erase:
  "map (\<lambda>(l, r). (l, r\<lparr>vals := c\<rparr>)) (clip_feature f df) = map (\<lambda>(l, r). (l, r\<lparr>vals := c\<rparr>)) df"
  unfolding clip_feature_eq
  by (rule set_column_erase) (simp add: clipped_length column_length)

lemma fold_clip_erase:
  "map (\<lambda>(l, r). (l, r\<lparr>vals := c\<rparr>)) (fold clip_feature fs df) = map (\<lambda>(l, r). (l, r\<lparr>vals := c\<rparr>)) df"
  by (induction fs arbitrary: df) (simp_all add: clip_feature_erase)

lemma fold_clip_other: "f \<notin> set fs \<Longrightarrow> column f (fold clip_feature fs df) = column f df"
  by (induction fs arbitrary: df) (auto simp: clip_feature_other)

lemma fold_clip_column:
  "distinct fs \<Longrightarrow> f \<in> set fs \<Longrightarrow>
   column f (fold clip_feature fs df) =
     map (\<lambda>v. if cell_lt v (quantile (column f df) 0.01) then quantile (column f df) 0.01
              else if cell_gt v (quantile (column f df) 0.99) then quantile (column f df) 0.99
              else v) (column f df)"
proof (induction fs arbitrary: df)
  case Nil
  then show ?case by simp
next
  case (Cons g fs)
  show ?case
  proof (cases "f = g")
    case True
    then have "f \<notin> set fs" using Cons.prems(1) by simp
    then show ?thesis using True by (simp add: fold_clip_other clip_feature_column)
  next
    case False
    then have "f \<in> set fs" "distinct fs" using Cons.prems by auto
    from Cons.IH [OF this(2,1), of "clip_feature g df"] False
    show ?thesis by (simp add: clip_feature_other)
  qed
qed

lemma column_read_csv: "column f (read_csv rows) = map (\<lambda>r. vals r f) rows"
  by (simp add: column_map_snd to_csv_read_csv [unfolded to_csv_def])

lemma transform_outliers_column:
  "map (\<lambda>r. vals r f) (transform_outliers rows) =
     map (\<lambda>v. if cell_lt v (quantile (map (\<lambda>r. vals r f) rows) 0.01)
              then quantile (map (\<lambda>r. vals r f) rows) 0.01
              else if cell_gt v (quantile (map (\<lambda>r. vals r f) rows) 0.99)
              then quantile (map (\<lambda>r. vals r f) rows) 0.99
              else v) (map (\<lambda>r. vals r f) rows)"
proof -
  have d: "distinct features" by (simp add: features_def)
  have "map (\<lambda>r. vals r f) (transform_outliers rows) =
        column f (fold clip_feature features (read_csv rows))"
    by (simp add: transform_outliers_def to_csv_def column_map_snd)
  then show ?thesis
    unfolding fold_clip_column [OF d features_all] column_read_csv by simp
qed

lemma map_snd_erase:
  "map snd (map (\<lambda>(l, r). (l, g r)) df) = map g (map snd df)"
  by (induction df) auto

lemma transform_outliers_erase:
  "map (\<lambda>r. r\<lparr>vals := c\<rparr>) (transform_outliers rows) = map (\<lambda>r. r\<lparr>vals := c\<rparr>) rows"
proof -
  have "map (\<lambda>r. r\<lparr>vals := c\<rparr>) (map snd (fold clip_feature features (read_csv rows))) =
        map (\<lambda>r. r\<lparr>vals := c\<rparr>) (map snd (read_csv rows))"
    by (simp only: map_snd_erase [symmetric] fold_clip_erase)
  then show ?thesis
    unfolding transform_outliers_def to_csv_def to_csv_read_csv [unfolded to_csv_def] .
qed

lemma transform_outliers_length: "length (transform_outliers rows) = length rows"
  using transform_outliers_erase [of undefined rows] by (metis length_map)

lemma quantile_both: "(quantile col q1 = NaN) = (quantile col q2 = NaN)"
  by (simp add: quantile_NaN_iff)

lemma clip_in_range:
  assumes "(lb = NaN) = (ub = NaN)" "\<And>l u. lb = Num l \<Longrightarrow> ub = Num u \<Longrightarrow> l \<le> u"
    and "v' = (if cell_lt v lb then lb else if cell_gt v ub then ub else v)"
  shows "\<not> cell_lt v' lb \<and> \<not> cell_gt v' ub"
proof (cases lb)
  case NaN
  then have "ub = NaN" using assms(1) by simp
  then show ?thesis using NaN assms(3) by (cases v) auto
next
  case (Num l)
  then obtain u where u: "ub = Num u" using assms(1) by (cases ub) auto
  have "l \<le> u" using assms(2) Num u by blast
  then show ?thesis using Num u assms(3) by (cases v) auto
qed

text \<open>
  Claim C1, as stated, fails: a second run of the clipper changes its own output.  The
  percentiles are interpolated between neighbouring values, so after the extreme values
  have been pulled in, the percentiles of the clipped column lie further in.  The column
  0, 100 becomes 1, 99 and then 1.98, 98.02.
\<close>

theorem transform_outliers_not_idempotent:
  "transform_outliers (transform_outliers two_row_table) \<noteq> transform_outliers two_row_table"
proof
  assume "transform_outliers (transform_outliers two_row_table) = transform_outliers two_row_table"
  then have "map (\<lambda>r. vals r Creatinine) (transform_outliers (transform_outliers two_row_table)) =
             map (\<lambda>r. vals r Creatinine) (transform_outliers two_row_table)"
    by simp
  moreover have one: "map (\<lambda>r. vals r Creatinine) (transform_outliers two_row_table) = [Num 1, Num 99]"
    unfolding transform_outliers_column by (simp add: two_row_table_def quantile_def)
  moreover have "map (\<lambda>r. vals r Creatinine) (transform_outliers (transform_outliers two_row_table)) =
      [Num 1.98, Num 98.02]"
    unfolding transform_outliers_column [of Creatinine "transform_outliers two_row_table"] one
    by (simp add: quantile_def)
  ultimately show False by simp
qed

text \<open>
  Claim C1, amended.  One run of the clipper keeps the number of rows and every column
  other than the feature values, and leaves every value of each feature column within the
  1st and 99th percentile of that column as computed on the input of the run: a value
  below the 1st percentile becomes the 1st percentile, a value above the 99th becomes the
  99th, any other value and NaN stay.  Clipping the result again with these same bounds
  changes nothing.
\<close>

theorem transform_outliers_within_input_percentiles:
  assumes "col = map (\<lambda>r. vals r f) rows" "lb = quantile col 0.01" "ub = quantile col 0.99"
    and "out = transform_outliers rows"
  shows "length out = length rows \<and>
     (\<forall>i < length rows.
        out ! i = (rows ! i)\<lparr>vals := vals (out ! i)\<rparr> \<and>
        vals (out ! i) f = (if cell_lt (col ! i) lb then lb else if cell_gt (col ! i) ub then ub else col ! i) \<and>
        \<not> cell_lt (vals (out ! i) f) lb \<and> \<not> cell_gt (vals (out ! i) f) ub \<and>
        (\<forall>l u x. lb = Num l \<and> ub = Num u \<and> vals (out ! i) f = Num x \<longrightarrow> l \<le> x \<and> x \<le> u)) \<and>
     map (\<lambda>v. if cell_lt v lb then lb else if cell_gt v ub then ub else v) (map (\<lambda>r. vals r f) out)
       = map (\<lambda>r. vals r f) out"
proof -
  have len: "length out = length rows" unfolding assms(4) by (rule transform_outliers_length)
  have colout: "map (\<lambda>r. vals r f) out =
      map (\<lambda>v. if cell_lt v lb then lb else if cell_gt v ub then ub else v) col"
    unfolding assms by (rule transform_outliers_column)
  have both: "(lb = NaN) = (ub = NaN)" unfolding assms(2,3) by (rule quantile_both)
  have mono: "\<And>l u. lb = Num l \<Longrightarrow> ub = Num u \<Longrightarrow> l \<le> u"
    using quantile_mono [of "0.01" "0.99" col] assms(2,3) by simp
  have cell: "\<And>i. i < length rows \<Longrightarrow>
      vals (out ! i) f = (if cell_lt (col ! i) lb then lb else if cell_gt (col ! i) ub then ub else col ! i)"
  proof -
    fix i assume i: "i < length rows"
    have "map (\<lambda>r. vals r f) out ! i =
      map (\<lambda>v. if cell_lt v lb then lb else if cell_gt v ub then ub else v) col ! i"
      using colout by simp
    then show "vals (out ! i) f = (if cell_lt (col ! i) lb then lb else if cell_gt (col ! i) ub then ub else col ! i)"
      using i len by (simp add: assms(1))
  qed
  have range: "\<And>i. i < length rows \<Longrightarrow> \<not> cell_lt (vals (out ! i) f) lb \<and> \<not> cell_gt (vals (out ! i) f) ub"
    by (rule clip_in_range [OF both mono cell])
  have num: "\<And>i. i < length rows \<Longrightarrow>
       \<forall>l u x. lb = Num l \<and> ub = Num u \<and> vals (out ! i) f = Num x \<longrightarrow> l \<le> x \<and> x \<le> u"
  proof (intro allI impI)
    fix i l u x assume i: "i < length rows"
      and a: "lb = Num l \<and> ub = Num u \<and> vals (out ! i) f = Num x"
    from range [OF i] a show "l \<le> x \<and> x \<le> u" by simp
  qed
  have row: "\<And>i. i < length rows \<Longrightarrow> out ! i = (rows ! i)\<lparr>vals := vals (out ! i)\<rparr>"
  proof -
    fix i assume i: "i < length rows"
    have "map (\<lambda>r. r\<lparr>vals := vals (out ! i)\<rparr>) out ! i = map (\<lambda>r. r\<lparr>vals := vals (out ! i)\<rparr>) rows ! i"
      unfolding assms(4) transform_outliers_erase ..
    then show "out ! i = (rows ! i)\<lparr>vals := vals (out ! i)\<rparr>" using i len by simp
  qed
  have again: "map (\<lambda>v. if cell_lt v lb then lb else if cell_gt v ub then ub else v) (map (\<lambda>r. vals r f) out)
       = map (\<lambda>r. vals r f) out"
  proof (rule nth_equalityI)
    show "length (map (\<lambda>v. if cell_lt v lb then lb else if cell_gt v ub then ub else v) (map (\<lambda>r. vals r f) out))
        = length (map (\<lambda>r. vals r f) out)" by simp
  next
    fix i assume "i < length (map (\<lambda>v. if cell_lt v lb then lb else if cell_gt v ub then ub else v) (map (\<lambda>r. vals r f) out))"
    then have i: "i < length rows" using len by simp
    then show "map (\<lambda>v. if cell_lt v lb then lb else if cell_gt v ub then ub else v) (map (\<lambda>r. vals r f) out) ! i
        = map (\<lambda>r. vals r f) out ! i"
      using range [OF i] len by simp
  qed
  show ?thesis using len cell range num row again by blast
qed

theorem transform_outliers_within_input_percentiles_witness:
  "length (transform_outliers two_row_table) = 2 \<and>
   vals (transform_outliers two_row_table ! 0) Creatinine = Num 1 \<and>
   vals (transform_outliers two_row_table ! 1) Creatinine = Num 99"
proof -
  let ?col = "map (\<lambda>r. vals r Creatinine) two_row_table"
  have q: "quantile ?col 0.01 = Num 1" "quantile ?col 0.99 = Num 99"
    by (simp_all add: two_row_table_def quantile_def)
  have c: "?col ! 0 = Num 0" "?col ! 1 = Num 100" "length two_row_table = 2"
    by (simp_all add: two_row_table_def)
  note t = transform_outliers_within_input_percentiles [OF refl refl refl refl,
      where f = Creatinine and rows = two_row_table]
  have i0: "0 < length two_row_table" and i1: "1 < length two_row_table" using c(3) by simp_all
  from t i0 have "vals (transform_outliers two_row_table ! 0) Creatinine =
      (if cell_lt (?col ! 0) (quantile ?col 0.01) then quantile ?col 0.01
       else if cell_gt (?col ! 0) (quantile ?col 0.99) then quantile ?col 0.99 else ?col ! 0)"
    by blast
  then have a: "vals (transform_outliers two_row_table ! 0) Creatinine = Num 1"
    unfolding q c by simp
  from t i1 have "vals (transform_outliers two_row_table ! 1) Creatinine =
      (if cell_lt (?col ! 1) (quantile ?col 0.01) then quantile ?col 0.01
       else if cell_gt (?col ! 1) (quantile ?col 0.99) then quantile ?col 0.99 else ?col ! 1)"
    by blast
  then have b: "vals (transform_outliers two_row_table ! 1) Creatinine = Num 99"
    unfolding q c by simp
  from t have "length (transform_outliers two_row_table) = 2" using c(3) by simp
  then show ?thesis using a b by simp
qed

section \<open>Properties of the feature aggregator\<close>






















lemma apply_err_fails:
  assumes "\<exists>x \<in> set xs. f x = Inl e" "\<forall>x \<in> set xs. \<forall>e'. f x = Inl e' \<longrightarrow> e' = e"
  shows "apply_err f xs = Inl e"
  using assms
proof (induction xs)
  case Nil
  then show ?case by simp
next
  case (Cons x xs)
  show ?case
  proof (cases "f x")
    case (Inl e')
    then have "e' = e" using Cons.prems(2) by simp
    then show ?thesis using Inl by simp
  next
    case (Inr y)
    then have "\<exists>x \<in> set xs. f x = Inl e" using Cons.prems(1) by auto
    then have "apply_err f xs = Inl e" using Cons.IH Cons.prems(2) by simp
    then show ?thesis using Inr by simp
  qed
qed



lemma partition_rows_unknown_item:
  assumes "\<exists>e \<in> set evs. features_reversed (itemid e) = None"
  shows "partition_rows evs = Inl KeyError"
proof -
  have "apply_err feature_of evs = Inl KeyError"
  proof (rule apply_err_fails)
    from assms obtain e where "e \<in> set evs" "features_reversed (itemid e) = None" by blast
    then have "e \<in> set evs" "feature_of e = Inl KeyError" by (simp_all add: feature_of_def)
    then show "\<exists>x \<in> set evs. feature_of x = Inl KeyError" by blast
    show "\<forall>x \<in> set evs. \<forall>e'. feature_of x = Inl e' \<longrightarrow> e' = KeyError"
      by (auto simp: feature_of_def split: option.splits)
  qed
  then show ?thesis by (simp add: partition_rows_def)
qed





end
